theory Spec2Isabelle
  imports Main
begin

section \<open>Data model of \<open>turf_chatot.py\<close>\<close>

text \<open>
  The three SQLAlchemy models become records. A \<open>datetime.time\<close> is its hour and minute, a
  \<open>datetime.date\<close> its year, month and day. The fields \<open>user_id\<close> and \<open>slot_id\<close> of
  \<open>Booking\<close> are prefixed, since a record field is a constant of the theory.
\<close>

datatype pytime = Time (hour: int) (minute: int)

datatype pydate = Date (year: int) (month: int) (day: int)

record user =
  user_id :: int
  name :: string
  email :: string
  phone :: string
  password :: string
  role :: string

record slot =
  slot_id :: int
  start_time :: pytime
  end_time :: pytime
  date :: pydate
  availability :: bool

record booking =
  booking_id :: int
  booking_user_id :: int
  booking_slot_id :: int
  confirmation_status :: bool

text \<open>
  The database behind the session: one list of rows per table, in insertion order.
  Every function below ends with \<open>session.commit()\<close> (or changes nothing), so a state is
  always a committed one.
\<close>

record db =
  users :: "user list"
  slots :: "slot list"
  bookings :: "booking list"

definition empty_db :: db where
  "empty_db = \<lparr>users = [], slots = [], bookings = []\<rparr>"

datatype error = AttributeError | ValueError | IndexError | UnicodeEncodeError

text \<open>
  The integer primary keys are SQLite row ids: a row inserted without a key gets the largest
  key of the table plus one, and 1 in an empty table.
\<close>

definition next_rowid :: "int list \<Rightarrow> int" where
  "next_rowid ids = (case ids of [] \<Rightarrow> 1 | x # xs \<Rightarrow> fold max xs x + 1)"

text \<open>\<open>datetime.time(h, m)\<close> raises \<open>ValueError\<close> outside 0..23 and 0..59.\<close>

definition py_time :: "int \<Rightarrow> int \<Rightarrow> error + pytime" where
  "py_time h m = (if 0 \<le> h \<and> h \<le> 23 \<and> 0 \<le> m \<and> m \<le> 59 then Inr (Time h m) else Inl ValueError)"

section \<open>Credentials\<close>

text \<open>
  \<open>str.encode\<close> and \<open>bcrypt\<close> are outside the repository, and each of their calls can
  raise (\<open>UnicodeEncodeError\<close> on a string that UTF-8 cannot encode; \<open>ValueError\<close> from
  bcrypt, which in its version 5 refuses a password over 72 bytes). They are parameters
  that return the value or the exception; the salt that \<open>gensalt()\<close> draws is an
  argument. Decoding the hash, which is ASCII, does not raise.
\<close>

record pylib =
  str_encode :: "string \<Rightarrow> error + string"
  bcrypt_hashpw :: "string \<Rightarrow> string \<Rightarrow> error + string"
  bcrypt_checkpw :: "string \<Rightarrow> string \<Rightarrow> error + bool"

definition hash_password :: "pylib \<Rightarrow> string \<Rightarrow> string \<Rightarrow> error + string" where
  "hash_password lib salt pw =
     (case str_encode lib pw of
        Inl e \<Rightarrow> Inl e
      | Inr bytes \<Rightarrow> bcrypt_hashpw lib bytes salt)"


text \<open>
  \<open>register_user\<close>: the password is hashed first, inside the \<open>try\<close>, and an exception of
  the hash is not an \<open>IntegrityError\<close>, so it leaves the function with nothing added. The
  insert violates the UNIQUE constraint on \<open>email\<close> exactly when a row with that email
  exists; that \<open>IntegrityError\<close> is caught, the session rolled back and \<open>False\<close> returned.
\<close>

definition register_user ::
  "pylib \<Rightarrow> string \<Rightarrow> db \<Rightarrow> string \<Rightarrow> string \<Rightarrow> string \<Rightarrow> string \<Rightarrow> string \<Rightarrow> db \<times> (error + bool)" where
  "register_user lib salt d nm em ph pw rl =
     (case hash_password lib salt pw of
        Inl e \<Rightarrow> (d, Inl e)
      | Inr hashed_pw \<Rightarrow>
          (let new_user = \<lparr>user_id = next_rowid (map user_id (users d)), name = nm, email = em,
                            phone = ph, password = hashed_pw, role = rl\<rparr>
           in if em \<in> set (map email (users d)) then (d, Inr False)
              else (d\<lparr>users := users d @ [new_user]\<rparr>, Inr True)))"


section \<open>Slots\<close>

text \<open>\<open>session.add(Slot(...))\<close>: the column default makes the new slot available.\<close>

definition add_slot :: "db \<Rightarrow> pytime \<Rightarrow> pytime \<Rightarrow> pydate \<Rightarrow> db" where
  "add_slot d st et dt =
     d\<lparr>slots := slots d @ [\<lparr>slot_id = next_rowid (map slot_id (slots d)), start_time = st,
                             end_time = et, date = dt, availability = True\<rparr>]\<rparr>"

text \<open>Assigning \<open>availability\<close> on a loaded slot updates the row with its primary key.\<close>

definition set_availability :: "db \<Rightarrow> int \<Rightarrow> bool \<Rightarrow> db" where
  "set_availability d i v =
     d\<lparr>slots := map (\<lambda>s. if slot_id s = i then s\<lparr>availability := v\<rparr> else s) (slots d)\<rparr>"

text \<open>The hours of \<open>range(24)\<close> are all valid for \<open>time(hour, 0)\<close>, so no error branch.\<close>

definition generate_slots_for_date :: "db \<Rightarrow> pydate \<Rightarrow> db" where
  "generate_slots_for_date d selected_date =
     (if find (\<lambda>s. date s = selected_date) (slots d) = None
      then foldl (\<lambda>d' h. add_slot d' (Time h 0) (Time ((h + 1) mod 24) 0) selected_date) d [0..23]
      else d)"

definition get_available_slots :: "db \<Rightarrow> pydate \<Rightarrow> db \<times> slot list" where
  "get_available_slots d selected_date =
     (let d' = generate_slots_for_date d selected_date
      in (d', filter (\<lambda>s. date s = selected_date) (slots d')))"

section \<open>Bookings\<close>

definition add_booking :: "db \<Rightarrow> int \<Rightarrow> int \<Rightarrow> db" where
  "add_booking d uid sid =
     d\<lparr>bookings := bookings d @ [\<lparr>booking_id = next_rowid (map booking_id (bookings d)),
                                   booking_user_id = uid, booking_slot_id = sid,
                                   confirmation_status = True\<rparr>]\<rparr>"

text \<open>
  The first loop of \<open>book_slot\<close>. The query of each round flushes the pending changes of the
  rounds before it, so it sees their flips. The list holds the slot objects, which carry
  the new availability.
\<close>

fun book_loop :: "db \<Rightarrow> int \<Rightarrow> int list \<Rightarrow> slot list \<Rightarrow> db \<times> slot list" where
  "book_loop d uid [] successful_bookings = (d, successful_bookings)"
| "book_loop d uid (sid # rest) successful_bookings =
     (case find (\<lambda>s. slot_id s = sid \<and> availability s = True) (slots d) of
        None \<Rightarrow> book_loop d uid rest successful_bookings
      | Some s \<Rightarrow>
          book_loop (add_booking (set_availability d (slot_id s) False) uid sid) uid rest
            (successful_bookings @ [s\<lparr>availability := False\<rparr>]))"

text \<open>
  \<open>send_notification\<close> writes two messages, one to the user and one to the owner. Their
  texts are functions of the user and the slot, which the message keeps. With no user,
  reading \<open>user.name\<close> raises before anything is written.
\<close>

datatype message = UserMessage string user slot | OwnerMessage string user slot

definition send_notification :: "user option \<Rightarrow> slot \<Rightarrow> error + message list" where
  "send_notification usr s =
     (case usr of
        None \<Rightarrow> Inl AttributeError
      | Some u \<Rightarrow> Inr [UserMessage (email u) u s, OwnerMessage ''owner@example.com'' u s])"

text \<open>The second loop: the messages written so far, and the error that stopped it, if any.\<close>

fun notify_loop :: "db \<Rightarrow> int \<Rightarrow> slot list \<Rightarrow> message list \<Rightarrow> message list \<times> error option" where
  "notify_loop d uid [] out = (out, None)"
| "notify_loop d uid (s # rest) out =
     (case send_notification (find (\<lambda>u. user_id u = uid) (users d)) s of
        Inl e \<Rightarrow> (out, Some e)
      | Inr ms \<Rightarrow> notify_loop d uid rest (out @ ms))"

text \<open>
  \<open>book_slot\<close> returns the committed database, the messages written and either the list
  of booked slots or the exception that left the function after the commit.
\<close>

definition book_slot :: "db \<Rightarrow> int \<Rightarrow> int list \<Rightarrow> db \<times> message list \<times> (error + slot list)" where
  "book_slot d uid slot_ids =
     (case book_loop d uid slot_ids [] of
        (d', successful_bookings) \<Rightarrow>
          (case notify_loop d' uid successful_bookings [] of
             (out, Some e) \<Rightarrow> (d', out, Inl e)
           | (out, None) \<Rightarrow> (d', out, Inr successful_bookings)))"

text \<open>
  \<open>cancel_booking\<close>: \<open>booking.slot\<close> loads the slot with the booking's \<open>slot_id\<close>; were there
  none, assigning to its attribute would raise before any change.
\<close>

definition cancel_booking :: "db \<Rightarrow> int \<Rightarrow> db \<times> (error + bool)" where
  "cancel_booking d bid =
     (case find (\<lambda>b. booking_id b = bid) (bookings d) of
        None \<Rightarrow> (d, Inr False)
      | Some b \<Rightarrow>
          (case find (\<lambda>s. slot_id s = booking_slot_id b) (slots d) of
             None \<Rightarrow> (d, Inl AttributeError)
           | Some s \<Rightarrow>
               ((set_availability d (slot_id s) True)
                  \<lparr>bookings := filter (\<lambda>b'. booking_id b' \<noteq> booking_id b) (bookings d)\<rparr>,
                Inr True)))"

section \<open>Owner actions\<close>

text \<open>The "Create Slot" button: \<open>True\<close> for "created", \<open>False\<close> for "already exists".\<close>

definition create_slot :: "db \<Rightarrow> pydate \<Rightarrow> int \<Rightarrow> db \<times> (error + bool)" where
  "create_slot d selected_date start_hour =
     (let end_hour = (start_hour + 1) mod 24
      in case py_time start_hour 0 of
           Inl e \<Rightarrow> (d, Inl e)
         | Inr st \<Rightarrow>
             (if find (\<lambda>s. date s = selected_date \<and> start_time s = st) (slots d) = None
              then (add_slot d st (Time end_hour 0) selected_date, Inr True)
              else (d, Inr False)))"

text \<open>Python's \<open>xs[i]\<close>: a negative index counts from the end.\<close>

definition py_index :: "'a list \<Rightarrow> int \<Rightarrow> error + 'a" where
  "py_index xs i =
     (if 0 \<le> i \<and> i < int (length xs) then Inr (xs ! nat i)
      else if i < 0 \<and> - int (length xs) \<le> i then Inr (xs ! nat (int (length xs) + i))
      else Inl IndexError)"

text \<open>
  The "Block Slot" button on the slot chosen by its index in the day's list; \<open>False\<close> is
  the branch "No slots found for the selected date".
\<close>

definition block_slot :: "db \<Rightarrow> pydate \<Rightarrow> int \<Rightarrow> db \<times> (error + bool)" where
  "block_slot d selected_date selected_slot_index =
     (let day = filter (\<lambda>s. date s = selected_date) (slots d)
      in if day = [] then (d, Inr False)
         else (case py_index day selected_slot_index of
                 Inl e \<Rightarrow> (d, Inl e)
               | Inr selected_slot \<Rightarrow> (set_availability d (slot_id selected_slot) False, Inr True)))"

section \<open>Sequences of operations\<close>

datatype op =
    Register string string string string string string
  | Generate pydate
  | Book int "int list"
  | Cancel int
  | CreateSlot pydate int
  | BlockSlot pydate int

fun step :: "pylib \<Rightarrow> db \<Rightarrow> op \<Rightarrow> db" where
  "step lib d (Register salt nm em ph pw rl) = fst (register_user lib salt d nm em ph pw rl)"
| "step lib d (Generate dt) = generate_slots_for_date d dt"
| "step lib d (Book uid ids) = fst (book_slot d uid ids)"
| "step lib d (Cancel bid) = fst (cancel_booking d bid)"
| "step lib d (CreateSlot dt h) = fst (create_slot d dt h)"
| "step lib d (BlockSlot dt i) = fst (block_slot d dt i)"

definition run :: "pylib \<Rightarrow> db \<Rightarrow> op list \<Rightarrow> db" where
  "run lib d ops = foldl (step lib) d ops"

section \<open>Schema constraints and the states of a slot\<close>

text \<open>
  What the schema declares of a database: the primary keys of slots and bookings are
  unique, and the foreign key of a booking names a stored slot.
\<close>

definition wf_db :: "db \<Rightarrow> bool" where
  "wf_db d \<longleftrightarrow>
     distinct (map slot_id (slots d)) \<and> distinct (map booking_id (bookings d)) \<and>
     set (map booking_slot_id (bookings d)) \<subseteq> set (map slot_id (slots d))"

text \<open>The bookings that reference a slot id, and the slot stored under an id.\<close>

definition bookings_of :: "db \<Rightarrow> int \<Rightarrow> booking list" where
  "bookings_of d i = filter (\<lambda>b. booking_slot_id b = i) (bookings d)"

definition slot_by_id :: "db \<Rightarrow> int \<Rightarrow> slot option" where
  "slot_by_id d i = find (\<lambda>s. slot_id s = i) (slots d)"

text \<open>The ids under which an available slot is stored.\<close>

definition available_ids :: "db \<Rightarrow> int set" where
  "available_ids d = {i. \<exists>s\<in>set (slots d). slot_id s = i \<and> availability s}"

text \<open>
  The three states of a slot, read off the tables: available; unavailable and referenced
  by a booking; unavailable and referenced by none.
\<close>

datatype slot_state = Available | Booked | Blocked

definition slot_state_of :: "db \<Rightarrow> slot \<Rightarrow> slot_state" where
  "slot_state_of d s =
     (if availability s then Available
      else if bookings_of d (slot_id s) = [] then Blocked else Booked)"

definition state_of :: "db \<Rightarrow> int \<Rightarrow> slot_state option" where
  "state_of d i = map_option (slot_state_of d) (slot_by_id d i)"

text \<open>The changes of state, each with the operation that makes it.\<close>

definition transition_allowed :: "slot_state \<Rightarrow> op \<Rightarrow> slot_state \<Rightarrow> bool" where
  "transition_allowed st opn st' \<longleftrightarrow>
     st' = st \<or>
     (case opn of
        Book uid ids \<Rightarrow> st = Available \<and> st' = Booked
      | Cancel bid \<Rightarrow> st = Booked \<and> st' = Available
      | BlockSlot dt i \<Rightarrow> st = Available \<and> st' = Blocked
      | _ \<Rightarrow> False)"

text \<open>
  The invariant of the booking tables: the schema constraints, no two bookings on one slot,
  and no booking on an available slot.
\<close>

definition booking_inv :: "db \<Rightarrow> bool" where
  "booking_inv d \<longleftrightarrow>
     wf_db d \<and> distinct (map booking_slot_id (bookings d)) \<and>
     (\<forall>s\<in>set (slots d). availability s \<longrightarrow> bookings_of d (slot_id s) = [])"

section \<open>Example data\<close>

text \<open>A user, hourly slots of one day and bookings of that user, for the concrete instances.\<close>

definition example_user :: user where
  "example_user = \<lparr>user_id = 7, name = ''Asha'', email = ''a@x.in'', phone = ''1'',
                     password = ''#secret1'', role = ''user''\<rparr>"

definition example_slot :: "int \<Rightarrow> int \<Rightarrow> bool \<Rightarrow> slot" where
  "example_slot i h a = \<lparr>slot_id = i, start_time = Time h 0, end_time = Time ((h + 1) mod 24) 0,
                          date = Date 2024 6 1, availability = a\<rparr>"

definition example_booking :: "int \<Rightarrow> int \<Rightarrow> booking" where
  "example_booking i sid = \<lparr>booking_id = i, booking_user_id = 7, booking_slot_id = sid,
                             confirmation_status = True\<rparr>"

text \<open>
  A library that behaves as bcrypt 5 does on long passwords: it raises \<open>ValueError\<close> on a
  password over 72 bytes; the hash is the salt followed by the password.
\<close>

definition example_lib :: pylib where
  "example_lib =
     \<lparr>str_encode = Inr,
      bcrypt_hashpw = (\<lambda>pw salt. if 72 < length pw then Inl ValueError else Inr (salt @ pw)),
      bcrypt_checkpw = (\<lambda>pw hashed. if 72 < length pw then Inl ValueError
                                  else Inr (hashed = ''#'' @ pw))\<rparr>"

section \<open>Row ids and slot generation\<close>

lemma next_rowid_Max: "ids \<noteq> [] \<Longrightarrow> next_rowid ids = Max (set ids) + 1"
  by (cases ids) (simp_all only: next_rowid_def list.case Max.set_eq_fold, simp)

lemma next_rowid_greater: "i \<in> set ids \<Longrightarrow> i < next_rowid ids"
proof -
  assume a: "i \<in> set ids"
  then have "ids \<noteq> []" by auto
  moreover have "i \<le> Max (set ids)" using a by simp
  ultimately show ?thesis by (simp add: next_rowid_Max)
qed

lemma next_rowid_notin: "next_rowid ids \<notin> set ids"
  using next_rowid_greater by blast

lemma next_rowid_snoc: "next_rowid (ids @ [next_rowid ids]) = next_rowid ids + 1"
proof (cases "ids = []")
  case True
  then show ?thesis by (simp add: next_rowid_def)
next
  case False
  have "Max (set (ids @ [next_rowid ids])) = max (next_rowid ids) (Max (set ids))"
    using False by simp
  also have "\<dots> = next_rowid ids" using False by (simp add: next_rowid_Max)
  finally show ?thesis by (simp add: next_rowid_Max)
qed

lemma next_rowid_append_run:
  "next_rowid (ids @ map (\<lambda>k. next_rowid ids + int k) [0..<n]) = next_rowid ids + int n"
proof (induction n)
  case 0
  then show ?case by simp
next
  case (Suc n)
  let ?js = "ids @ map (\<lambda>k. next_rowid ids + int k) [0..<n]"
  have "next_rowid (?js @ [next_rowid ?js]) = next_rowid ?js + 1"
    by (rule next_rowid_snoc)
  then show ?case using Suc by (simp add: add.assoc)
qed

lemma slots_add_slot:
  "slots (add_slot d st et dt) =
     slots d @ [\<lparr>slot_id = next_rowid (map slot_id (slots d)), start_time = st,
                 end_time = et, date = dt, availability = True\<rparr>]"
  by (simp add: add_slot_def)

lemma foldl_add_slot_slots:
  "slots (foldl (\<lambda>d' h. add_slot d' (f h) (g h) dt) d hs) =
     slots d @ map (\<lambda>(k, h). \<lparr>slot_id = next_rowid (map slot_id (slots d)) + int k,
                       start_time = f h, end_time = g h, date = dt, availability = True\<rparr>)
                  (zip [0..<length hs] hs)"
proof (induction hs rule: rev_induct)
  case Nil
  then show ?case by simp
next
  case (snoc h hs)
  let ?n = "next_rowid (map slot_id (slots d))"
  let ?D = "foldl (\<lambda>d' h. add_slot d' (f h) (g h) dt) d hs"
  have "map slot_id (slots ?D) = map slot_id (slots d) @ map (\<lambda>k. ?n + int k) [0..<length hs]"
    unfolding snoc.IH by (simp add: map_equality_iff)
  then have nxt: "next_rowid (map slot_id (slots ?D)) = ?n + int (length hs)"
    by (simp only: next_rowid_append_run)
  have "slots (foldl (\<lambda>d' h. add_slot d' (f h) (g h) dt) d (hs @ [h])) =
        slots ?D @ [\<lparr>slot_id = ?n + int (length hs), start_time = f h,
                 end_time = g h, date = dt, availability = True\<rparr>]"
    by (simp only: foldl_append foldl.simps slots_add_slot nxt)
  then show ?case
    by (simp add: snoc.IH)
qed

lemma foldl_add_slot_others:
  "users (foldl (\<lambda>d' h. add_slot d' (f h) (g h) dt) d hs) = users d \<and>
   bookings (foldl (\<lambda>d' h. add_slot d' (f h) (g h) dt) d hs) = bookings d"
  by (induction hs rule: rev_induct) (simp_all add: add_slot_def)

lemma zip_hours: "zip [0..<24] [0..23] = map (\<lambda>h. (nat h, h)) [0..23]"
  by code_simp

lemma generate_fresh_slots:
  assumes "find (\<lambda>s. date s = dt) (slots d) = None"
  shows "slots (generate_slots_for_date d dt) =
     slots d @ map (\<lambda>h. \<lparr>slot_id = next_rowid (map slot_id (slots d)) + h, start_time = Time h 0,
                          end_time = Time ((h + 1) mod 24) 0, date = dt, availability = True\<rparr>) [0..23]"
proof -
  have len: "length [0..23::int] = 24" by code_simp
  have "slots (generate_slots_for_date d dt) =
     slots d @ map (\<lambda>(k, h). \<lparr>slot_id = next_rowid (map slot_id (slots d)) + int k,
                       start_time = Time h 0, end_time = Time ((h + 1) mod 24) 0, date = dt, availability = True\<rparr>)
                  (zip [0..<length [0..23::int]] [0..23])"
    unfolding generate_slots_for_date_def
    by (simp only: assms HOL.simp_thms if_True foldl_add_slot_slots)
  also have "zip [0..<length [0..23::int]] [0..23] = map (\<lambda>h. (nat h, h)) [0..23]"
    by (simp only: len zip_hours)
  finally show ?thesis
    by (simp add: o_def)
qed

lemma generate_existing: "find (\<lambda>s. date s = dt) (slots d) \<noteq> None \<Longrightarrow> generate_slots_for_date d dt = d"
  by (auto simp: generate_slots_for_date_def)

lemma find_None_date: "(find (\<lambda>s. date s = dt) xs = None) = (\<forall>s\<in>set xs. date s \<noteq> dt)"
  by (auto simp: find_None_iff)

lemma generate_then_exists: "find (\<lambda>s. date s = dt) (slots (generate_slots_for_date d dt)) \<noteq> None"
proof (cases "find (\<lambda>s. date s = dt) (slots d) = None")
  case True
  have "(0::int) \<in> set [0..23]" by simp
  then show ?thesis
    unfolding generate_fresh_slots[OF True] find_None_date by force
next
  case False
  then show ?thesis by (simp add: generate_existing)
qed

text \<open>
  C3: on a date with no slot yet, \<open>generate_slots_for_date\<close> followed by
  \<open>get_available_slots\<close> returns exactly 24 slots in the order of their ids (which rise by
  one from the next free row id), one per start hour 0 to 23, all available; the slot
  starting at hour \<open>h\<close> ends at hour \<open>(h + 1) mod 24\<close> on the same date, and the second call
  adds nothing.
\<close>

theorem fresh_day_has_24_slots:
  assumes "\<forall>s\<in>set (slots d). date s \<noteq> dt"
  shows "snd (get_available_slots (generate_slots_for_date d dt) dt) =
           map (\<lambda>h. \<lparr>slot_id = next_rowid (map slot_id (slots d)) + h, start_time = Time h 0,
                      end_time = Time ((h + 1) mod 24) 0, date = dt, availability = True\<rparr>) [0..23]
         \<and> length (snd (get_available_slots (generate_slots_for_date d dt) dt)) = 24
         \<and> fst (get_available_slots (generate_slots_for_date d dt) dt) = generate_slots_for_date d dt"
proof -
  let ?g = "generate_slots_for_date d dt"
  let ?new = "map (\<lambda>h. \<lparr>slot_id = next_rowid (map slot_id (slots d)) + h, start_time = Time h 0,
                      end_time = Time ((h + 1) mod 24) 0, date = dt, availability = True\<rparr>) [0..23]"
  have none: "find (\<lambda>s. date s = dt) (slots d) = None"
    using assms by (simp add: find_None_date)
  have again: "generate_slots_for_date ?g dt = ?g"
    by (rule generate_existing[OF generate_then_exists])
  have old: "filter (\<lambda>s. date s = dt) (slots d) = []"
    using assms by (simp add: filter_empty_conv)
  have new: "filter (\<lambda>s. date s = dt) ?new = ?new"
    by (simp add: filter_map o_def)
  have res: "snd (get_available_slots ?g dt) = ?new"
    by (simp only: get_available_slots_def Let_def again generate_fresh_slots[OF none] snd_conv filter_append old new append_Nil)
  have len: "length [0..23::int] = 24" by code_simp
  show ?thesis
    by (simp only: res length_map len) (simp add: get_available_slots_def Let_def again)
qed

theorem fresh_day_has_24_slots_witness:
  "slots empty_db = []
   \<and> length (snd (get_available_slots (generate_slots_for_date empty_db (Date 2024 6 1)) (Date 2024 6 1))) = 24
   \<and> snd (get_available_slots (generate_slots_for_date empty_db (Date 2024 6 1)) (Date 2024 6 1)) ! 23 =
       \<lparr>slot_id = 24, start_time = Time 23 0, end_time = Time 0 0, date = Date 2024 6 1, availability = True\<rparr>"
proof -
  have h: "\<forall>s\<in>set (slots empty_db). date s \<noteq> Date 2024 6 1"
    by (simp add: empty_db_def)
  have n: "next_rowid (map slot_id (slots empty_db)) = 1"
    by (simp add: empty_db_def next_rowid_def)
  have l: "length [0..23::int] = 24" by code_simp
  have e: "[0..23::int] ! 23 = 23" by code_simp
  show ?thesis
    using fresh_day_has_24_slots[OF h]
    by (simp only: n nth_map l e) (simp add: empty_db_def)
qed

lemma fresh_day_listing:
  assumes "\<forall>s\<in>set (slots d). date s \<noteq> dt"
  shows "filter (\<lambda>s. date s = dt) (slots (generate_slots_for_date d dt)) =
           map (\<lambda>h. \<lparr>slot_id = next_rowid (map slot_id (slots d)) + h, start_time = Time h 0,
                      end_time = Time ((h + 1) mod 24) 0, date = dt, availability = True\<rparr>) [0..23]"
proof -
  let ?new = "map (\<lambda>h. \<lparr>slot_id = next_rowid (map slot_id (slots d)) + h, start_time = Time h 0,
                      end_time = Time ((h + 1) mod 24) 0, date = dt, availability = True\<rparr>) [0..23]"
  have none: "find (\<lambda>s. date s = dt) (slots d) = None"
    using assms by (simp add: find_None_date)
  have old: "filter (\<lambda>s. date s = dt) (slots d) = []"
    using assms by (simp add: filter_empty_conv)
  have new: "filter (\<lambda>s. date s = dt) ?new = ?new"
    by (simp add: filter_map o_def)
  show ?thesis
    by (simp only: generate_fresh_slots[OF none] filter_append old new append_Nil)
qed

lemma fresh_day_distinct:
  "distinct (map slot_id (map (\<lambda>h. \<lparr>slot_id = n + h, start_time = Time h 0,
                      end_time = Time ((h + 1) mod 24) 0, date = dt, availability = True\<rparr>) [0..23]))"
  "distinct (map start_time (map (\<lambda>h. \<lparr>slot_id = n + h, start_time = Time h 0,
                      end_time = Time ((h + 1) mod 24) 0, date = dt, availability = True\<rparr>) [0..23]))"
proof -
  have d: "distinct [0..23::int]" by (rule distinct_upto)
  have "distinct (map (\<lambda>h. n + h) [0..23])"
    using d by (simp only: distinct_map) (simp add: inj_on_def)
  then show "distinct (map slot_id (map (\<lambda>h. \<lparr>slot_id = n + h, start_time = Time h 0,
                      end_time = Time ((h + 1) mod 24) 0, date = dt, availability = True\<rparr>) [0..23]))"
    by (simp only: map_map o_def slot.simps)
  have "distinct (map (\<lambda>h. Time h 0) [0..23])"
    using d by (simp only: distinct_map) (simp add: inj_on_def)
  then show "distinct (map start_time (map (\<lambda>h. \<lparr>slot_id = n + h, start_time = Time h 0,
                      end_time = Time ((h + 1) mod 24) 0, date = dt, availability = True\<rparr>) [0..23]))"
    by (simp only: map_map o_def slot.simps)
qed

text \<open>
  C4, amended: \<open>generate_slots_for_date\<close> is idempotent. When a slot of the date exists the
  call changes nothing; calling it twice gives the state of calling it once, and listing
  the day after either gives the same slots. On a date with no slot before the first call,
  the day listed after two calls is exactly the 24 hourly slots of one call, with no two
  slots of one id or one start time. (A date for which the owner created a slot first keeps
  the slots it has, so it need not have 24.)
\<close>

theorem generate_slots_for_date_idempotent:
  "((\<exists>s\<in>set (slots d). date s = dt) \<longrightarrow> generate_slots_for_date d dt = d)
   \<and> generate_slots_for_date (generate_slots_for_date d dt) dt = generate_slots_for_date d dt
   \<and> get_available_slots (generate_slots_for_date d dt) dt = get_available_slots d dt
   \<and> ((\<forall>s\<in>set (slots d). date s \<noteq> dt) \<longrightarrow>
         snd (get_available_slots (generate_slots_for_date (generate_slots_for_date d dt) dt) dt) =
           map (\<lambda>h. \<lparr>slot_id = next_rowid (map slot_id (slots d)) + h, start_time = Time h 0,
                      end_time = Time ((h + 1) mod 24) 0, date = dt, availability = True\<rparr>) [0..23]
         \<and> length (snd (get_available_slots
                 (generate_slots_for_date (generate_slots_for_date d dt) dt) dt)) = 24
         \<and> distinct (map slot_id (snd (get_available_slots
                 (generate_slots_for_date (generate_slots_for_date d dt) dt) dt)))
         \<and> distinct (map start_time (snd (get_available_slots
                 (generate_slots_for_date (generate_slots_for_date d dt) dt) dt))))"
proof -
  let ?g = "generate_slots_for_date d dt"
  let ?new = "map (\<lambda>h. \<lparr>slot_id = next_rowid (map slot_id (slots d)) + h, start_time = Time h 0,
                      end_time = Time ((h + 1) mod 24) 0, date = dt, availability = True\<rparr>) [0..23]"
  have a: "(\<exists>s\<in>set (slots d). date s = dt) \<longrightarrow> generate_slots_for_date d dt = d"
    using generate_existing[of dt d] by (auto simp: find_None_date)
  have b: "generate_slots_for_date ?g dt = ?g"
    by (rule generate_existing[OF generate_then_exists])
  have c: "get_available_slots ?g dt = get_available_slots d dt"
    using b by (simp add: get_available_slots_def Let_def)
  have listing: "snd (get_available_slots (generate_slots_for_date ?g dt) dt) =
      filter (\<lambda>s. date s = dt) (slots ?g)"
    by (simp only: b get_available_slots_def Let_def snd_conv)
  have len: "length [0..23::int] = 24" by code_simp
  have e: "(\<forall>s\<in>set (slots d). date s \<noteq> dt) \<longrightarrow>
         snd (get_available_slots (generate_slots_for_date ?g dt) dt) = ?new
         \<and> length (snd (get_available_slots (generate_slots_for_date ?g dt) dt)) = 24
         \<and> distinct (map slot_id (snd (get_available_slots (generate_slots_for_date ?g dt) dt)))
         \<and> distinct (map start_time (snd (get_available_slots (generate_slots_for_date ?g dt) dt)))"
  proof
    assume fresh: "\<forall>s\<in>set (slots d). date s \<noteq> dt"
    have l: "snd (get_available_slots (generate_slots_for_date ?g dt) dt) = ?new"
      by (simp only: listing fresh_day_listing[OF fresh])
    show "snd (get_available_slots (generate_slots_for_date ?g dt) dt) = ?new
         \<and> length (snd (get_available_slots (generate_slots_for_date ?g dt) dt)) = 24
         \<and> distinct (map slot_id (snd (get_available_slots (generate_slots_for_date ?g dt) dt)))
         \<and> distinct (map start_time (snd (get_available_slots (generate_slots_for_date ?g dt) dt)))"
      unfolding l by (intro conjI refl fresh_day_distinct) (simp only: length_map len)
  qed
  from a b c e show ?thesis by (intro conjI)
qed

text \<open>
  After the owner created the 10:00 slot of a day, generating the day twice leaves it with
  that one slot: the day listed is not 24 slots.
\<close>

theorem generate_slots_owner_created_counterexample:
  "snd (get_available_slots
          (run example_lib empty_db
             [CreateSlot (Date 2024 6 1) 10, Generate (Date 2024 6 1), Generate (Date 2024 6 1)])
          (Date 2024 6 1))
   = [example_slot 1 10 True]"
  by (simp add: run_def create_slot_def py_time_def add_slot_def next_rowid_def empty_db_def
        example_slot_def generate_slots_for_date_def get_available_slots_def)

theorem generate_slots_for_date_idempotent_witness:
  "(\<exists>s\<in>set (slots \<lparr>users = [], slots = [example_slot 1 10 False], bookings = []\<rparr>).
      date s = Date 2024 6 1)
   \<and> generate_slots_for_date \<lparr>users = [], slots = [example_slot 1 10 False], bookings = []\<rparr>
        (Date 2024 6 1)
      = \<lparr>users = [], slots = [example_slot 1 10 False], bookings = []\<rparr>
   \<and> slots empty_db = []
   \<and> length (snd (get_available_slots
         (generate_slots_for_date (generate_slots_for_date empty_db (Date 2024 6 1)) (Date 2024 6 1))
         (Date 2024 6 1))) = 24
   \<and> distinct (map start_time (snd (get_available_slots
         (generate_slots_for_date (generate_slots_for_date empty_db (Date 2024 6 1)) (Date 2024 6 1))
         (Date 2024 6 1))))"
proof -
  let ?d = "\<lparr>users = [], slots = [example_slot 1 10 False], bookings = []\<rparr>"
  have h1: "\<exists>s\<in>set (slots ?d). date s = Date 2024 6 1" by (simp add: example_slot_def)
  from generate_slots_for_date_idempotent[of ?d "Date 2024 6 1", THEN conjunct1, THEN mp, OF h1]
  have a: "generate_slots_for_date ?d (Date 2024 6 1) = ?d" .
  have h2: "\<forall>s\<in>set (slots empty_db). date s \<noteq> Date 2024 6 1" by (simp add: empty_db_def)
  have e: "slots empty_db = []" by (simp add: empty_db_def)
  note t = generate_slots_for_date_idempotent[of empty_db "Date 2024 6 1",
      THEN conjunct2, THEN conjunct2, THEN conjunct2, THEN mp, OF h2]
  from t[THEN conjunct2, THEN conjunct1]
  have b: "length (snd (get_available_slots
         (generate_slots_for_date (generate_slots_for_date empty_db (Date 2024 6 1)) (Date 2024 6 1))
         (Date 2024 6 1))) = 24" .
  from t[THEN conjunct2, THEN conjunct2, THEN conjunct2]
  have c: "distinct (map start_time (snd (get_available_slots
         (generate_slots_for_date (generate_slots_for_date empty_db (Date 2024 6 1)) (Date 2024 6 1))
         (Date 2024 6 1))))" .
  from h1 a e b c show ?thesis by (intro conjI)
qed

section \<open>Registration and login\<close>








section \<open>Booking\<close>

lemma add_booking_simps:
  "users (add_booking d uid sid) = users d"
  "slots (add_booking d uid sid) = slots d"
  "bookings (add_booking d uid sid) =
     bookings d @ [\<lparr>booking_id = next_rowid (map booking_id (bookings d)),
                     booking_user_id = uid, booking_slot_id = sid, confirmation_status = True\<rparr>]"
  by (simp_all add: add_booking_def)

lemma set_availability_simps:
  "users (set_availability d i v) = users d"
  "bookings (set_availability d i v) = bookings d"
  "slots (set_availability d i v) =
     map (\<lambda>s. if slot_id s = i then s\<lparr>availability := v\<rparr> else s) (slots d)"
  by (simp_all add: set_availability_def)

lemma slot_ids_set_availability:
  "map slot_id (slots (set_availability d i v)) = map slot_id (slots d)"
proof -
  have "slot_id (if c then s\<lparr>availability := v\<rparr> else s) = slot_id s" for c and s :: slot
    by simp
  then show ?thesis by (simp add: set_availability_def o_def)
qed

lemma find_available_None:
  "find (\<lambda>s. slot_id s = i \<and> availability s = True) (slots d) = None \<longleftrightarrow> i \<notin> available_ids d"
  by (auto simp: find_None_iff available_ids_def)

lemma find_available_Some:
  "find (\<lambda>s. slot_id s = i \<and> availability s = True) (slots d) = Some s \<Longrightarrow>
     s \<in> set (slots d) \<and> slot_id s = i \<and> availability s \<and> i \<in> available_ids d"
  by (auto simp: find_Some_iff available_ids_def)

lemma available_after_flip_pointwise:
  "(slot_id (if slot_id s = i then s\<lparr>availability := False\<rparr> else s) = j \<and>
    availability (if slot_id s = i then s\<lparr>availability := False\<rparr> else s))
   \<longleftrightarrow> (slot_id s = j \<and> availability s \<and> j \<noteq> i)"
  by (cases "slot_id s = i") auto

lemma available_ids_after_flip:
  "available_ids (add_booking (set_availability d i False) uid sid) = available_ids d - {i}"
proof (rule set_eqI)
  fix j
  have "j \<in> available_ids (add_booking (set_availability d i False) uid sid) \<longleftrightarrow>
        (\<exists>s\<in>set (slots d). slot_id s = j \<and> availability s \<and> j \<noteq> i)"
    unfolding available_ids_def mem_Collect_eq add_booking_simps set_availability_simps
      set_map bex_simps(7) available_after_flip_pointwise ..
  also have "\<dots> \<longleftrightarrow> j \<in> available_ids d - {i}"
    unfolding available_ids_def by blast
  finally show "j \<in> available_ids (add_booking (set_availability d i False) uid sid) \<longleftrightarrow>
     j \<in> available_ids d - {i}" .
qed

lemma flip_unavailable: "\<not> availability s \<Longrightarrow> s\<lparr>availability := False\<rparr> = s"
  by simp

lemma book_loop_users: "book_loop d uid ids acc = (d', res) \<Longrightarrow> users d' = users d"
  by (induction d uid ids acc rule: book_loop.induct)
     (auto simp: add_booking_simps set_availability_simps split: option.splits)

lemma book_loop_slots:
  "book_loop d uid ids acc = (d', res) \<Longrightarrow>
     slots d' = map (\<lambda>s. if slot_id s \<in> set ids then s\<lparr>availability := False\<rparr> else s) (slots d)"
proof (induction d uid ids acc rule: book_loop.induct)
  case (1 d uid acc)
  then show ?case by simp
next
  case (2 d uid sid rest acc)
  show ?case
  proof (cases "find (\<lambda>s. slot_id s = sid \<and> availability s = True) (slots d)")
    case None
    then have un: "\<forall>s\<in>set (slots d). slot_id s = sid \<longrightarrow> \<not> availability s"
      by (auto simp: find_None_iff)
    from None "2.prems" have "book_loop d uid rest acc = (d', res)" by simp
    from "2.IH"(1)[OF None this] have
      "slots d' = map (\<lambda>s. if slot_id s \<in> set rest then s\<lparr>availability := False\<rparr> else s) (slots d)" .
    also have "\<dots> = map (\<lambda>s. if slot_id s \<in> set (sid # rest) then s\<lparr>availability := False\<rparr> else s) (slots d)"
    proof (rule map_cong)
      show "slots d = slots d" ..
    next
      fix x assume "x \<in> set (slots d)"
      with un show "(if slot_id x \<in> set rest then x\<lparr>availability := False\<rparr> else x) =
         (if slot_id x \<in> set (sid # rest) then x\<lparr>availability := False\<rparr> else x)"
        by (cases "slot_id x = sid") simp_all
    qed
    finally show ?thesis .
  next
    case (Some s)
    then have sid: "slot_id s = sid" by (auto simp: find_Some_iff)
    from Some "2.prems" have
      "book_loop (add_booking (set_availability d (slot_id s) False) uid sid) uid rest
         (acc @ [s\<lparr>availability := False\<rparr>]) = (d', res)" by simp
    from "2.IH"(2)[OF Some this] have
      "slots d' = map (\<lambda>s. if slot_id s \<in> set rest then s\<lparr>availability := False\<rparr> else s)
                    (map (\<lambda>s. if slot_id s = sid then s\<lparr>availability := False\<rparr> else s) (slots d))"
      by (simp only: add_booking_simps set_availability_simps sid)
    moreover have pt:
      "(if slot_id (if slot_id x = sid then x\<lparr>availability := False\<rparr> else x) \<in> set rest
        then (if slot_id x = sid then x\<lparr>availability := False\<rparr> else x)\<lparr>availability := False\<rparr>
        else (if slot_id x = sid then x\<lparr>availability := False\<rparr> else x)) =
       (if slot_id x \<in> set (sid # rest) then x\<lparr>availability := False\<rparr> else x)" for x
      by (cases "slot_id x = sid") simp_all
    ultimately show ?thesis
      by (simp only: map_map o_def pt)
  qed
qed


lemma available_in_flipped:
  assumes "s1 \<in> set (slots (add_booking (set_availability d i False) uid sid))" "availability s1"
  shows "s1 \<in> set (slots d)"
proof -
  from assms(1) obtain s0 where s0: "s0 \<in> set (slots d)"
      and s1: "s1 = (if slot_id s0 = i then s0\<lparr>availability := False\<rparr> else s0)"
    unfolding add_booking_simps set_availability_simps by auto
  from s1 assms(2) have "slot_id s0 \<noteq> i" by (cases "slot_id s0 = i") simp_all
  with s0 s1 show ?thesis by simp
qed

lemma book_loop_result:
  "book_loop d uid ids acc = (d', res) \<Longrightarrow>
    \<exists>new nb. res = acc @ new \<and> bookings d' = bookings d @ nb
      \<and> map booking_slot_id nb = map slot_id new
      \<and> map booking_id nb = map (\<lambda>k. next_rowid (map booking_id (bookings d)) + int k) [0..<length nb]
      \<and> (\<forall>b\<in>set nb. booking_user_id b = uid \<and> confirmation_status b)
      \<and> distinct (map slot_id new)
      \<and> set (map slot_id new) = set ids \<inter> available_ids d
      \<and> (\<forall>x\<in>set new. \<exists>s\<in>set (slots d). availability s \<and> x = s\<lparr>availability := False\<rparr>)"
proof (induction d uid ids acc rule: book_loop.induct)
  case (1 d uid acc)
  then show ?case by simp
next
  case (2 d uid sid rest acc)
  show ?case
  proof (cases "find (\<lambda>s. slot_id s = sid \<and> availability s = True) (slots d)")
    case None
    with find_available_None[of sid d] have notin: "sid \<notin> available_ids d" by simp
    from None "2.prems" have "book_loop d uid rest acc = (d', res)" by simp
    from "2.IH"(1)[OF None this] obtain new nb where
      r: "res = acc @ new" "bookings d' = bookings d @ nb"
         "map booking_slot_id nb = map slot_id new"
         "map booking_id nb = map (\<lambda>k. next_rowid (map booking_id (bookings d)) + int k) [0..<length nb]"
         "\<forall>b\<in>set nb. booking_user_id b = uid \<and> confirmation_status b"
         "distinct (map slot_id new)"
         "set (map slot_id new) = set rest \<inter> available_ids d"
         "\<forall>x\<in>set new. \<exists>s\<in>set (slots d). availability s \<and> x = s\<lparr>availability := False\<rparr>"
      by blast
    from r(7) notin have "set (map slot_id new) = set (sid # rest) \<inter> available_ids d"
      by auto
    with r show ?thesis by blast
  next
    case (Some s)
    from find_available_Some[OF Some] have
      s: "s \<in> set (slots d)" "slot_id s = sid" "availability s" "sid \<in> available_ids d"
      by simp_all
    let ?d1 = "add_booking (set_availability d (slot_id s) False) uid sid"
    let ?s' = "s\<lparr>availability := False\<rparr>"
    let ?n0 = "next_rowid (map booking_id (bookings d))"
    let ?b0 = "\<lparr>booking_id = ?n0, booking_user_id = uid, booking_slot_id = sid,
                confirmation_status = True\<rparr>"
    from Some "2.prems" have "book_loop ?d1 uid rest (acc @ [?s']) = (d', res)" by simp
    from "2.IH"(2)[OF Some this] obtain new nb where
      r: "res = (acc @ [?s']) @ new" "bookings d' = bookings ?d1 @ nb"
         "map booking_slot_id nb = map slot_id new"
         "map booking_id nb = map (\<lambda>k. next_rowid (map booking_id (bookings ?d1)) + int k) [0..<length nb]"
         "\<forall>b\<in>set nb. booking_user_id b = uid \<and> confirmation_status b"
         "distinct (map slot_id new)"
         "set (map slot_id new) = set rest \<inter> available_ids ?d1"
         "\<forall>x\<in>set new. \<exists>s\<in>set (slots ?d1). availability s \<and> x = s\<lparr>availability := False\<rparr>"
      by blast
    have bk1: "bookings ?d1 = bookings d @ [?b0]"
      by (simp only: add_booking_simps set_availability_simps)
    have n1: "next_rowid (map booking_id (bookings ?d1)) = ?n0 + 1"
      unfolding bk1 using next_rowid_snoc[of "map booking_id (bookings d)"] by simp
    have av1: "available_ids ?d1 = available_ids d - {sid}"
      by (simp only: available_ids_after_flip s(2))
    have c1: "res = acc @ (?s' # new)" using r(1) by simp
    have c2: "bookings d' = bookings d @ (?b0 # nb)" using r(2) bk1 by simp
    have c3: "map booking_slot_id (?b0 # nb) = map slot_id (?s' # new)"
      using r(3) s(2) by simp
    have c4: "map booking_id (?b0 # nb) = map (\<lambda>k. ?n0 + int k) [0..<length (?b0 # nb)]"
    proof -
      have "map (\<lambda>k. ?n0 + int k) [0..<Suc (length nb)] =
            ?n0 # map (\<lambda>k. ?n0 + int (Suc k)) [0..<length nb]"
        by (simp only: map_upt_Suc) simp
      also have "map (\<lambda>k. ?n0 + int (Suc k)) [0..<length nb] = map booking_id nb"
        unfolding r(4) n1 by (simp add: add.assoc add.commute)
      finally show ?thesis by simp
    qed
    have c5: "\<forall>b\<in>set (?b0 # nb). booking_user_id b = uid \<and> confirmation_status b"
      using r(5) by simp
    have c6: "distinct (map slot_id (?s' # new))"
      using r(6) r(7) av1 s(2) by auto
    have c7: "set (map slot_id (?s' # new)) = set (sid # rest) \<inter> available_ids d"
      using r(7) av1 s(2) s(4) by auto
    have c8: "\<forall>x\<in>set (?s' # new). \<exists>s\<in>set (slots d). availability s \<and> x = s\<lparr>availability := False\<rparr>"
    proof
      fix x assume "x \<in> set (?s' # new)"
      then consider "x = ?s'" | "x \<in> set new" by auto
      then show "\<exists>s\<in>set (slots d). availability s \<and> x = s\<lparr>availability := False\<rparr>"
      proof cases
        case 1
        with s(1) s(3) show ?thesis by blast
      next
        case 2
        with r(8) obtain s1 where "s1 \<in> set (slots ?d1)" "availability s1"
          "x = s1\<lparr>availability := False\<rparr>" by blast
        with available_in_flipped[of s1 d "slot_id s" uid sid] show ?thesis by blast
      qed
    qed
    from c1 c2 c3 c4 c5 c6 c7 c8 show ?thesis by blast
  qed
qed


lemma notify_loop_found:
  "find (\<lambda>u. user_id u = uid) (users d) = Some u \<Longrightarrow>
     notify_loop d uid ss out =
       (out @ concat (map (\<lambda>s. [UserMessage (email u) u s, OwnerMessage ''owner@example.com'' u s]) ss), None)"
  by (induction ss arbitrary: out) (simp_all add: send_notification_def)

lemma notify_loop_missing:
  "find (\<lambda>u. user_id u = uid) (users d) = None \<Longrightarrow>
     notify_loop d uid ss out = (out, if ss = [] then None else Some AttributeError)"
  by (cases ss) (simp_all add: send_notification_def)

lemma filter_key_unique:
  "distinct (map f xs) \<Longrightarrow> x \<in> set xs \<Longrightarrow> filter (\<lambda>y. f y = f x) xs = [x]"
proof (induction xs)
  case Nil
  then show ?case by simp
next
  case (Cons a xs)
  show ?case
  proof (cases "a = x")
    case True
    with Cons.prems(1) have "f x \<notin> f ` set xs" by simp
    then have "\<forall>y\<in>set xs. f y \<noteq> f x" by (metis image_eqI)
    then have "filter (\<lambda>y. f y = f x) xs = []" by (simp add: filter_empty_conv)
    with True show ?thesis by simp
  next
    case False
    with Cons.prems have "x \<in> set xs" "f a \<noteq> f x" by auto
    with Cons.IH Cons.prems(1) show ?thesis by simp
  qed
qed

lemma concat_lookup:
  "map f nb = map g new \<Longrightarrow> \<forall>x\<in>set new. filter (\<lambda>s. g s = g x) S = [x] \<Longrightarrow>
     concat (map (\<lambda>b. filter (\<lambda>s. g s = f b) S) nb) = new"
proof (induction nb arbitrary: new)
  case Nil
  then show ?case by simp
next
  case (Cons b nb)
  then obtain x new' where new: "new = x # new'" by (cases new) auto
  with Cons.prems have "f b = g x" "map f nb = map g new'"
    "filter (\<lambda>s. g s = g x) S = [x]" "\<forall>x\<in>set new'. filter (\<lambda>s. g s = g x) S = [x]"
    by auto
  with Cons.IH[of new'] new show ?case by simp
qed

lemma book_slot_char:
  assumes "distinct (map slot_id (slots d))"
  shows
   "(let d' = fst (book_slot d uid ids);
         nb = drop (length (bookings d)) (bookings d');
         booked = concat (map (\<lambda>b. filter (\<lambda>s. slot_id s = booking_slot_id b) (slots d')) nb)
     in users d' = users d
      \<and> slots d' = map (\<lambda>s. if slot_id s \<in> set ids then s\<lparr>availability := False\<rparr> else s) (slots d)
      \<and> bookings d' = bookings d @ nb
      \<and> distinct (map booking_slot_id nb)
      \<and> set (map booking_slot_id nb) = {i \<in> set ids. \<exists>s\<in>set (slots d). slot_id s = i \<and> availability s}
      \<and> map booking_id nb = map (\<lambda>k. next_rowid (map booking_id (bookings d)) + int k) [0..<length nb]
      \<and> (\<forall>b\<in>set nb. booking_user_id b = uid \<and> confirmation_status b)
      \<and> map slot_id booked = map booking_slot_id nb
      \<and> (\<forall>s\<in>set booked. \<not> availability s)
      \<and> (\<forall>u. find (\<lambda>u. user_id u = uid) (users d) = Some u \<longrightarrow>
            snd (book_slot d uid ids) =
              (concat (map (\<lambda>s. [UserMessage (email u) u s, OwnerMessage ''owner@example.com'' u s]) booked),
               Inr booked))
      \<and> (find (\<lambda>u. user_id u = uid) (users d) = None \<and> nb = [] \<longrightarrow>
            snd (book_slot d uid ids) = ([], Inr [])))"
proof -
  obtain d' res where loop: "book_loop d uid ids [] = (d', res)" by (cases "book_loop d uid ids []")
  from book_loop_result[OF loop] obtain nb where
    r: "bookings d' = bookings d @ nb"
       "map booking_slot_id nb = map slot_id res"
       "map booking_id nb = map (\<lambda>k. next_rowid (map booking_id (bookings d)) + int k) [0..<length nb]"
       "\<forall>b\<in>set nb. booking_user_id b = uid \<and> confirmation_status b"
       "distinct (map slot_id res)"
       "set (map slot_id res) = set ids \<inter> available_ids d"
       "\<forall>x\<in>set res. \<exists>s\<in>set (slots d). availability s \<and> x = s\<lparr>availability := False\<rparr>"
    by auto
  have us: "users d' = users d" by (rule book_loop_users[OF loop])
  have sl: "slots d' = map (\<lambda>s. if slot_id s \<in> set ids then s\<lparr>availability := False\<rparr> else s) (slots d)"
    by (rule book_loop_slots[OF loop])
  have fst_eq: "fst (book_slot d uid ids) = d'"
    by (simp add: book_slot_def loop split: prod.splits option.splits)
  have nb_eq: "drop (length (bookings d)) (bookings d') = nb" by (simp add: r(1))
  have ids': "map slot_id (slots d') = map slot_id (slots d)"
  proof -
    have "slot_id (if c then s\<lparr>availability := False\<rparr> else s) = slot_id s" for c and s :: slot
      by simp
    then show ?thesis by (simp add: sl o_def)
  qed
  have row: "filter (\<lambda>s. slot_id s = slot_id x) (slots d') = [x]" if "x \<in> set res" for x
  proof -
    from r(7) that obtain s where s: "s \<in> set (slots d)" "x = s\<lparr>availability := False\<rparr>" by blast
    from that r(6) have "slot_id x \<in> set ids" by auto
    with s(2) have "slot_id s \<in> set ids" by simp
    with s have "x \<in> set (slots d')" unfolding sl by force
    moreover have "distinct (map slot_id (slots d'))" using assms by (simp only: ids')
    ultimately show ?thesis by (rule filter_key_unique[rotated])
  qed
  have booked_eq: "concat (map (\<lambda>b. filter (\<lambda>s. slot_id s = booking_slot_id b) (slots d')) nb) = res"
    by (rule concat_lookup[OF r(2)]) (use row in blast)
  have av: "set ids \<inter> available_ids d = {i \<in> set ids. \<exists>s\<in>set (slots d). slot_id s = i \<and> availability s}"
    by (auto simp: available_ids_def)
  have found: "snd (book_slot d uid ids) =
      (concat (map (\<lambda>s. [UserMessage (email u) u s, OwnerMessage ''owner@example.com'' u s]) res), Inr res)"
    if "find (\<lambda>u. user_id u = uid) (users d) = Some u" for u
  proof -
    from that have "find (\<lambda>u. user_id u = uid) (users d') = Some u" by (simp only: us)
    from notify_loop_found[OF this, of res "[]"] show ?thesis
      by (simp add: book_slot_def loop)
  qed
  have missing: "snd (book_slot d uid ids) = ([], Inr [])"
    if "find (\<lambda>u. user_id u = uid) (users d) = None" "nb = []"
  proof -
    from that(2) r(2) have "res = []" by simp
    then show ?thesis by (simp add: book_slot_def loop)
  qed
  have c4: "distinct (map booking_slot_id nb)" using r(5) by (simp only: r(2))
  have c5: "set (map booking_slot_id nb) = {i \<in> set ids. \<exists>s\<in>set (slots d). slot_id s = i \<and> availability s}"
    using r(6) by (simp only: r(2) av)
  have c8: "map slot_id res = map booking_slot_id nb" using r(2) by simp
  have c8': "\<forall>s\<in>set res. \<not> availability s"
  proof
    fix x assume "x \<in> set res"
    with r(7) obtain s where "x = s\<lparr>availability := False\<rparr>" by blast
    then show "\<not> availability x" by simp
  qed
  have c9: "\<forall>u. find (\<lambda>u. user_id u = uid) (users d) = Some u \<longrightarrow>
            snd (book_slot d uid ids) =
              (concat (map (\<lambda>s. [UserMessage (email u) u s, OwnerMessage ''owner@example.com'' u s]) res),
               Inr res)"
    using found by blast
  have c10: "find (\<lambda>u. user_id u = uid) (users d) = None \<and> nb = [] \<longrightarrow>
            snd (book_slot d uid ids) = ([], Inr [])"
    using missing by blast
  show ?thesis
    unfolding Let_def fst_eq nb_eq booked_eq
    using us sl r(1) c4 c5 r(3) r(4) c8 c8' c9 c10
    by (intro conjI) assumption+
qed

text \<open>
  C1, amended: what a call of \<open>book_slot\<close> does, on a table of slots with unique ids. Every
  stored slot whose id is requested ends unavailable and no other slot changes; the new
  bookings \<open>nb\<close> are appended, one for each requested id whose slot was available and no
  two for one slot, with fresh consecutive ids, the caller's \<open>user_id\<close> and
  \<open>confirmation_status\<close> true; requested ids that are unknown or unavailable add nothing
  and raise nothing. When \<open>user_id\<close> is the id of a stored user the call returns the booked
  slots (the rows of the new bookings, unavailable, in booking order) and writes the two
  messages of \<open>send_notification\<close> once per booked slot.
\<close>

theorem book_slot_effect:
  assumes "distinct (map slot_id (slots d))"
  shows
   "(let d' = fst (book_slot d uid ids);
         nb = drop (length (bookings d)) (bookings d');
         booked = concat (map (\<lambda>b. filter (\<lambda>s. slot_id s = booking_slot_id b) (slots d')) nb)
     in users d' = users d
      \<and> slots d' = map (\<lambda>s. if slot_id s \<in> set ids then s\<lparr>availability := False\<rparr> else s) (slots d)
      \<and> bookings d' = bookings d @ nb
      \<and> distinct (map booking_slot_id nb)
      \<and> set (map booking_slot_id nb) = {i \<in> set ids. \<exists>s\<in>set (slots d). slot_id s = i \<and> availability s}
      \<and> map booking_id nb = map (\<lambda>k. next_rowid (map booking_id (bookings d)) + int k) [0..<length nb]
      \<and> (\<forall>b\<in>set nb. booking_user_id b = uid \<and> confirmation_status b)
      \<and> map slot_id booked = map booking_slot_id nb
      \<and> (\<forall>s\<in>set booked. \<not> availability s)
      \<and> (\<forall>u. find (\<lambda>u. user_id u = uid) (users d) = Some u \<longrightarrow>
            snd (book_slot d uid ids) =
              (concat (map (\<lambda>s. [UserMessage (email u) u s, OwnerMessage ''owner@example.com'' u s]) booked),
               Inr booked))
      \<and> (find (\<lambda>u. user_id u = uid) (users d) = None \<and> nb = [] \<longrightarrow>
            snd (book_slot d uid ids) = ([], Inr [])))"
  using assms by (rule book_slot_char)

text \<open>
  With a \<open>user_id\<close> that no user has, the slot is booked and committed, and the call then
  raises in \<open>send_notification\<close>: it returns no list and writes no message.
\<close>

theorem book_slot_unknown_user_counterexample:
  "book_slot \<lparr>users = [], slots = [\<lparr>slot_id = 1, start_time = Time 10 0, end_time = Time 11 0,
                    date = Date 2024 6 1, availability = True\<rparr>], bookings = []\<rparr> 7 [1]
   = (\<lparr>users = [], slots = [\<lparr>slot_id = 1, start_time = Time 10 0, end_time = Time 11 0,
                    date = Date 2024 6 1, availability = False\<rparr>],
       bookings = [\<lparr>booking_id = 1, booking_user_id = 7, booking_slot_id = 1,
                     confirmation_status = True\<rparr>]\<rparr>,
      [], Inl AttributeError)"
  by (simp add: book_slot_def add_booking_def set_availability_def next_rowid_def
        send_notification_def)

theorem book_slot_effect_witness:
  "distinct (map slot_id (slots
      \<lparr>users = [\<lparr>user_id = 7, name = ''Asha'', email = ''a@x.in'', phone = ''1'',
                  password = ''#secret1'', role = ''user''\<rparr>],
       slots = [\<lparr>slot_id = 1, start_time = Time 10 0, end_time = Time 11 0,
                  date = Date 2024 6 1, availability = True\<rparr>,
                \<lparr>slot_id = 2, start_time = Time 11 0, end_time = Time 12 0,
                  date = Date 2024 6 1, availability = False\<rparr>],
       bookings = []\<rparr>))
   \<and> book_slot
      \<lparr>users = [\<lparr>user_id = 7, name = ''Asha'', email = ''a@x.in'', phone = ''1'',
                  password = ''#secret1'', role = ''user''\<rparr>],
       slots = [\<lparr>slot_id = 1, start_time = Time 10 0, end_time = Time 11 0,
                  date = Date 2024 6 1, availability = True\<rparr>,
                \<lparr>slot_id = 2, start_time = Time 11 0, end_time = Time 12 0,
                  date = Date 2024 6 1, availability = False\<rparr>],
       bookings = []\<rparr> 7 [2, 1, 5]
     = (\<lparr>users = [\<lparr>user_id = 7, name = ''Asha'', email = ''a@x.in'', phone = ''1'',
                  password = ''#secret1'', role = ''user''\<rparr>],
         slots = [\<lparr>slot_id = 1, start_time = Time 10 0, end_time = Time 11 0,
                  date = Date 2024 6 1, availability = False\<rparr>,
                \<lparr>slot_id = 2, start_time = Time 11 0, end_time = Time 12 0,
                  date = Date 2024 6 1, availability = False\<rparr>],
         bookings = [\<lparr>booking_id = 1, booking_user_id = 7, booking_slot_id = 1,
                       confirmation_status = True\<rparr>]\<rparr>,
        [UserMessage ''a@x.in''
           \<lparr>user_id = 7, name = ''Asha'', email = ''a@x.in'', phone = ''1'',
              password = ''#secret1'', role = ''user''\<rparr>
           \<lparr>slot_id = 1, start_time = Time 10 0, end_time = Time 11 0,
              date = Date 2024 6 1, availability = False\<rparr>,
         OwnerMessage ''owner@example.com''
           \<lparr>user_id = 7, name = ''Asha'', email = ''a@x.in'', phone = ''1'',
              password = ''#secret1'', role = ''user''\<rparr>
           \<lparr>slot_id = 1, start_time = Time 10 0, end_time = Time 11 0,
              date = Date 2024 6 1, availability = False\<rparr>],
        Inr [\<lparr>slot_id = 1, start_time = Time 10 0, end_time = Time 11 0,
               date = Date 2024 6 1, availability = False\<rparr>])"
  using book_slot_effect
    [of "\<lparr>users = [\<lparr>user_id = 7, name = ''Asha'', email = ''a@x.in'', phone = ''1'',
                  password = ''#secret1'', role = ''user''\<rparr>],
       slots = [\<lparr>slot_id = 1, start_time = Time 10 0, end_time = Time 11 0,
                  date = Date 2024 6 1, availability = True\<rparr>,
                \<lparr>slot_id = 2, start_time = Time 11 0, end_time = Time 12 0,
                  date = Date 2024 6 1, availability = False\<rparr>],
       bookings = []\<rparr>" 7 "[2, 1, 5]"]
  by (simp add: book_slot_def add_booking_def set_availability_def next_rowid_def
        send_notification_def)

lemma book_loop_append:
  "book_loop d uid (xs @ ys) acc =
     (case book_loop d uid xs acc of (d', acc') \<Rightarrow> book_loop d' uid ys acc')"
  by (induction d uid xs acc rule: book_loop.induct) (simp_all split: option.splits)

lemma book_loop_seen:
  assumes "i \<in> set xs" "book_loop d uid xs acc = (d', acc')"
  shows "find (\<lambda>s. slot_id s = i \<and> availability s = True) (slots d') = None"
proof -
  have "\<not> (slot_id s' = i \<and> availability s' = True)" if "s' \<in> set (slots d')" for s'
  proof -
    from that have
      "s' \<in> (\<lambda>s. if slot_id s \<in> set xs then s\<lparr>availability := False\<rparr> else s) ` set (slots d)"
      unfolding book_loop_slots[OF assms(2)] by (simp only: set_map)
    then obtain s0 where
      "s' = (if slot_id s0 \<in> set xs then s0\<lparr>availability := False\<rparr> else s0)"
      by blast
    with assms(1) show ?thesis by (cases "slot_id s0 \<in> set xs") auto
  qed
  then show ?thesis by (auto simp: find_None_iff)
qed

lemma book_loop_skip_seen:
  assumes "i \<in> set xs"
  shows "book_loop d uid (xs @ i # ys) acc = book_loop d uid (xs @ ys) acc"
proof -
  obtain d' acc' where l: "book_loop d uid xs acc = (d', acc')"
    by (cases "book_loop d uid xs acc")
  from book_loop_seen[OF assms l] show ?thesis
    by (simp add: book_loop_append l)
qed

lemma count_one:
  "distinct (map f xs) \<Longrightarrow> i \<in> set (map f xs) \<Longrightarrow> length (filter (\<lambda>x. f x = i) xs) = 1"
proof (induction xs)
  case Nil
  then show ?case by simp
next
  case (Cons a xs)
  show ?case
  proof (cases "f a = i")
    case True
    with Cons.prems(1) have "i \<notin> f ` set xs" by auto
    then have "\<forall>y\<in>set xs. f y \<noteq> i" by (metis image_eqI)
    then have "filter (\<lambda>x. f x = i) xs = []" by (simp add: filter_empty_conv)
    with True show ?thesis by simp
  next
    case False
    with Cons show ?thesis by auto
  qed
qed

text \<open>
  C9, amended: when the requested ids name an available slot more than once, the call adds
  exactly one booking that references the slot; a later occurrence of an id that occurred
  before in the list is skipped (the call equals the call without it); and, when \<open>user_id\<close> is
  the id of a stored user, the returned list holds the slot exactly once.
\<close>

theorem book_slot_duplicate_ids:
  assumes "distinct (map slot_id (slots d))"
      and "s \<in> set (slots d)" and "availability s"
      and "1 < count_list ids (slot_id s)"
  shows "length (bookings_of (fst (book_slot d uid ids)) (slot_id s))
           = length (bookings_of d (slot_id s)) + 1
       \<and> (\<forall>xs ys. ids = xs @ slot_id s # ys \<and> slot_id s \<in> set xs \<longrightarrow>
             book_slot d uid ids = book_slot d uid (xs @ ys))
       \<and> (\<forall>u. find (\<lambda>u. user_id u = uid) (users d) = Some u \<longrightarrow>
             (\<exists>res. snd (snd (book_slot d uid ids)) = Inr res
                  \<and> length (filter (\<lambda>x. slot_id x = slot_id s) res) = 1))"
proof -
  let ?i = "slot_id s"
  let ?d' = "fst (book_slot d uid ids)"
  let ?nb = "drop (length (bookings d)) (bookings ?d')"
  let ?booked = "concat (map (\<lambda>b. filter (\<lambda>s. slot_id s = booking_slot_id b) (slots ?d')) ?nb)"
  note e = book_slot_char[OF assms(1), of uid ids, unfolded Let_def]
  from assms(4) have mem: "?i \<in> set ids"
    by (metis count_list_0_iff not_less_zero)
  from e have bk: "bookings ?d' = bookings d @ ?nb" by blast
  from e have dist: "distinct (map booking_slot_id ?nb)" by blast
  from e have "set (map booking_slot_id ?nb) =
      {i \<in> set ids. \<exists>s\<in>set (slots d). slot_id s = i \<and> availability s}" by blast
  with mem assms(2,3) have inn: "?i \<in> set (map booking_slot_id ?nb)" by blast
  have one: "length (filter (\<lambda>b. booking_slot_id b = ?i) ?nb) = 1"
    by (rule count_one[OF dist inn])
  have "bookings_of ?d' ?i = bookings_of d ?i @ filter (\<lambda>b. booking_slot_id b = ?i) ?nb"
    unfolding bookings_of_def by (subst bk) simp
  with one have c1: "length (bookings_of ?d' ?i) = length (bookings_of d ?i) + 1" by simp
  have c2: "\<forall>xs ys. ids = xs @ ?i # ys \<and> ?i \<in> set xs \<longrightarrow>
             book_slot d uid ids = book_slot d uid (xs @ ys)"
    by (auto simp: book_slot_def book_loop_skip_seen)
  have c3: "\<forall>u. find (\<lambda>u. user_id u = uid) (users d) = Some u \<longrightarrow>
             (\<exists>res. snd (snd (book_slot d uid ids)) = Inr res
                  \<and> length (filter (\<lambda>x. slot_id x = ?i) res) = 1)"
  proof (intro allI impI)
    fix u assume "find (\<lambda>u. user_id u = uid) (users d) = Some u"
    with e have r: "snd (snd (book_slot d uid ids)) = Inr ?booked" by simp
    from e have m: "map slot_id ?booked = map booking_slot_id ?nb" by blast
    have "length (filter (\<lambda>x. slot_id x = ?i) ?booked) = 1"
      by (rule count_one) (use dist inn m in simp_all)
    with r show "\<exists>res. snd (snd (book_slot d uid ids)) = Inr res
                  \<and> length (filter (\<lambda>x. slot_id x = ?i) res) = 1" by blast
  qed
  from c1 c2 c3 show ?thesis by (intro conjI)
qed

text \<open>The same with a repeated id: one booking is made, and the call raises.\<close>

theorem book_slot_duplicate_ids_counterexample:
  "book_slot \<lparr>users = [], slots = [\<lparr>slot_id = 1, start_time = Time 10 0, end_time = Time 11 0,
                    date = Date 2024 6 1, availability = True\<rparr>], bookings = []\<rparr> 7 [1, 1]
   = (\<lparr>users = [], slots = [\<lparr>slot_id = 1, start_time = Time 10 0, end_time = Time 11 0,
                    date = Date 2024 6 1, availability = False\<rparr>],
       bookings = [\<lparr>booking_id = 1, booking_user_id = 7, booking_slot_id = 1,
                     confirmation_status = True\<rparr>]\<rparr>,
      [], Inl AttributeError)"
  by (simp add: book_slot_def add_booking_def set_availability_def next_rowid_def
        send_notification_def)

theorem book_slot_duplicate_ids_witness:
  "distinct (map slot_id (slots \<lparr>users = [example_user],
          slots = [example_slot 1 10 True, example_slot 2 11 False], bookings = []\<rparr>))
   \<and> example_slot 1 10 True \<in> set (slots \<lparr>users = [example_user],
          slots = [example_slot 1 10 True, example_slot 2 11 False], bookings = []\<rparr>)
   \<and> availability (example_slot 1 10 True)
   \<and> 1 < count_list [1, 2, 1] (slot_id (example_slot 1 10 True))
   \<and> length (bookings_of (fst (book_slot \<lparr>users = [example_user],
          slots = [example_slot 1 10 True, example_slot 2 11 False], bookings = []\<rparr> 7 [1, 2, 1])) 1) = 1
   \<and> book_slot \<lparr>users = [example_user],
          slots = [example_slot 1 10 True, example_slot 2 11 False], bookings = []\<rparr> 7 [1, 2, 1]
     = book_slot \<lparr>users = [example_user],
          slots = [example_slot 1 10 True, example_slot 2 11 False], bookings = []\<rparr> 7 [1, 2]
   \<and> snd (snd (book_slot \<lparr>users = [example_user],
          slots = [example_slot 1 10 True, example_slot 2 11 False], bookings = []\<rparr> 7 [1, 2, 1]))
     = Inr [example_slot 1 10 False]"
proof -
  let ?d = "\<lparr>users = [example_user],
          slots = [example_slot 1 10 True, example_slot 2 11 False], bookings = []\<rparr>"
  have h1: "distinct (map slot_id (slots ?d))" by (simp add: example_slot_def)
  have h2: "example_slot 1 10 True \<in> set (slots ?d)" by simp
  have h3: "availability (example_slot 1 10 True)" by (simp add: example_slot_def)
  have h4: "1 < count_list [1, 2, 1] (slot_id (example_slot 1 10 True))"
    by (simp add: example_slot_def)
  have i: "slot_id (example_slot 1 10 True) = 1" by (simp add: example_slot_def)
  note t = book_slot_duplicate_ids[OF h1 h2 h3 h4, of 7, unfolded i]
  have "bookings_of ?d 1 = []" by (simp add: bookings_of_def)
  with t[THEN conjunct1] have a: "length (bookings_of (fst (book_slot ?d 7 [1, 2, 1])) 1) = 1"
    by (simp only: list.size add_0)
  from t[THEN conjunct2, THEN conjunct1, THEN spec, of "[1, 2]", THEN spec, of "[]"]
  have b: "book_slot ?d 7 [1, 2, 1] = book_slot ?d 7 [1, 2]" by simp
  have c: "snd (snd (book_slot ?d 7 [1, 2, 1])) = Inr [example_slot 1 10 False]"
    by (simp add: book_slot_def add_booking_def set_availability_def next_rowid_def
        send_notification_def example_slot_def example_user_def)
  from h1 h2 h3 h4 a b c show ?thesis by (intro conjI)
qed

section \<open>Rows found by a unique key\<close>

lemma find_key_unique:
  "distinct (map f xs) \<Longrightarrow> x \<in> set xs \<Longrightarrow> find (\<lambda>y. f y = f x) xs = Some x"
proof (induction xs)
  case Nil
  then show ?case by simp
next
  case (Cons a xs)
  show ?case
  proof (cases "a = x")
    case True
    then show ?thesis by simp
  next
    case False
    with Cons.prems have "x \<in> set xs" by simp
    with Cons.prems(1) have "f a \<noteq> f x" by (metis distinct.simps(2) image_eqI list.simps(9) set_map)
    with Cons.IH Cons.prems(1) \<open>x \<in> set xs\<close> show ?thesis by simp
  qed
qed

lemma filter_other_keys:
  "distinct (map f xs) \<Longrightarrow> x \<in> set xs \<Longrightarrow> filter (\<lambda>y. f y \<noteq> f x) xs = remove1 x xs"
proof (induction xs)
  case Nil
  then show ?case by simp
next
  case (Cons a xs)
  show ?case
  proof (cases "a = x")
    case True
    with Cons.prems(1) have "f x \<notin> f ` set xs" by simp
    then have "\<forall>y\<in>set xs. f y \<noteq> f x" by (metis image_eqI)
    then have "filter (\<lambda>y. f y \<noteq> f x) xs = xs" by (simp add: filter_id_conv)
    with True show ?thesis by simp
  next
    case False
    with Cons.prems have "x \<in> set xs" by simp
    with Cons.prems(1) have "f a \<noteq> f x" by (metis distinct.simps(2) image_eqI list.simps(9) set_map)
    with Cons.IH Cons.prems(1) \<open>x \<in> set xs\<close> False show ?thesis by simp
  qed
qed

section \<open>Cancelling and blocking\<close>

lemma wf_db_slot_exists:
  "wf_db d \<Longrightarrow> b \<in> set (bookings d) \<Longrightarrow> \<exists>s. find (\<lambda>s. slot_id s = booking_slot_id b) (slots d) = Some s \<and> s \<in> set (slots d) \<and> slot_id s = booking_slot_id b"
proof -
  assume wf: "wf_db d" and b: "b \<in> set (bookings d)"
  then have "booking_slot_id b \<in> set (map slot_id (slots d))"
    unfolding wf_db_def by auto
  then obtain s where s: "s \<in> set (slots d)" "slot_id s = booking_slot_id b" by auto
  from wf have "distinct (map slot_id (slots d))" by (simp add: wf_db_def)
  from find_key_unique[OF this s(1)] s show ?thesis by auto
qed

lemma cancel_booking_found:
  assumes "wf_db d" "b \<in> set (bookings d)"
  shows "cancel_booking d (booking_id b) =
     (d\<lparr>slots := map (\<lambda>s. if slot_id s = booking_slot_id b then s\<lparr>availability := True\<rparr> else s) (slots d),
        bookings := remove1 b (bookings d)\<rparr>, Inr True)"
proof -
  from assms(1) have db: "distinct (map booking_id (bookings d))" by (simp add: wf_db_def)
  have f: "find (\<lambda>b'. booking_id b' = booking_id b) (bookings d) = Some b"
    by (rule find_key_unique[OF db assms(2)])
  from wf_db_slot_exists[OF assms] obtain s where
    s: "find (\<lambda>s. slot_id s = booking_slot_id b) (slots d) = Some s" "slot_id s = booking_slot_id b"
    by blast
  have r: "filter (\<lambda>b'. booking_id b' \<noteq> booking_id b) (bookings d) = remove1 b (bookings d)"
    by (rule filter_other_keys[OF db assms(2)])
  show ?thesis
    by (simp add: cancel_booking_def f s r set_availability_def)
qed

lemma cancel_booking_missing:
  "\<forall>b\<in>set (bookings d). booking_id b \<noteq> bid \<Longrightarrow> cancel_booking d bid = (d, Inr False)"
proof -
  assume "\<forall>b\<in>set (bookings d). booking_id b \<noteq> bid"
  then have "find (\<lambda>b. booking_id b = bid) (bookings d) = None"
    by (simp add: find_None_iff)
  then show ?thesis by (simp add: cancel_booking_def)
qed

text \<open>
  C2: in a database that meets the schema constraints, cancelling the id of a stored
  booking sets the availability of the slot it references to true, removes that booking row
  and nothing else, and returns \<open>True\<close>; cancelling an id that no booking has returns
  \<open>False\<close> and leaves the database as it was. Every state that the operations reach
  from the empty database meets the constraints (\<open>wf_db_reachable\<close> below).
\<close>

theorem cancel_booking_effect:
  assumes "wf_db d"
  shows "(\<forall>b. b \<in> set (bookings d) \<and> booking_id b = bid \<longrightarrow>
            cancel_booking d bid =
              (d\<lparr>slots := map (\<lambda>s. if slot_id s = booking_slot_id b then s\<lparr>availability := True\<rparr> else s)
                             (slots d),
                 bookings := remove1 b (bookings d)\<rparr>, Inr True)
            \<and> (\<exists>s\<in>set (slots (fst (cancel_booking d bid))).
                  slot_id s = booking_slot_id b \<and> availability s)
            \<and> b \<notin> set (bookings (fst (cancel_booking d bid))))
       \<and> ((\<forall>b\<in>set (bookings d). booking_id b \<noteq> bid) \<longrightarrow> cancel_booking d bid = (d, Inr False))"
proof (intro conjI allI impI)
  fix b assume b: "b \<in> set (bookings d) \<and> booking_id b = bid"
  then have eq: "cancel_booking d bid =
     (d\<lparr>slots := map (\<lambda>s. if slot_id s = booking_slot_id b then s\<lparr>availability := True\<rparr> else s) (slots d),
        bookings := remove1 b (bookings d)\<rparr>, Inr True)"
    using cancel_booking_found[OF assms, of b] by simp
  then show "cancel_booking d bid =
     (d\<lparr>slots := map (\<lambda>s. if slot_id s = booking_slot_id b then s\<lparr>availability := True\<rparr> else s) (slots d),
        bookings := remove1 b (bookings d)\<rparr>, Inr True)" .
  from wf_db_slot_exists[OF assms] b obtain s where
    s: "s \<in> set (slots d)" "slot_id s = booking_slot_id b" by blast
  then have "s\<lparr>availability := True\<rparr> \<in> set (slots (fst (cancel_booking d bid)))"
    unfolding eq by force
  then show "\<exists>s\<in>set (slots (fst (cancel_booking d bid))). slot_id s = booking_slot_id b \<and> availability s"
    using s(2) by (intro bexI[of _ "s\<lparr>availability := True\<rparr>"]) simp_all
  from assms have "distinct (bookings d)"
    unfolding wf_db_def by (metis distinct_map)
  then show "b \<notin> set (bookings (fst (cancel_booking d bid)))"
    unfolding eq by simp
next
  assume "\<forall>b\<in>set (bookings d). booking_id b \<noteq> bid"
  then show "cancel_booking d bid = (d, Inr False)" by (rule cancel_booking_missing)
qed


theorem cancel_booking_effect_witness:
  "wf_db \<lparr>users = [example_user],
          slots = [example_slot 1 10 False, example_slot 2 11 True],
          bookings = [example_booking 1 1]\<rparr>
   \<and> cancel_booking \<lparr>users = [example_user],
          slots = [example_slot 1 10 False, example_slot 2 11 True],
          bookings = [example_booking 1 1]\<rparr> 1
     = (\<lparr>users = [example_user],
          slots = [example_slot 1 10 True, example_slot 2 11 True],
          bookings = []\<rparr>, Inr True)
   \<and> cancel_booking \<lparr>users = [example_user],
          slots = [example_slot 1 10 False, example_slot 2 11 True],
          bookings = [example_booking 1 1]\<rparr> 2
     = (\<lparr>users = [example_user],
          slots = [example_slot 1 10 False, example_slot 2 11 True],
          bookings = [example_booking 1 1]\<rparr>, Inr False)"
proof -
  let ?d = "\<lparr>users = [example_user],
          slots = [example_slot 1 10 False, example_slot 2 11 True],
          bookings = [example_booking 1 1]\<rparr>"
  have wf: "wf_db ?d"
    by (simp add: wf_db_def example_slot_def example_booking_def)
  from cancel_booking_effect[OF wf, of 1] have
    "cancel_booking ?d 1 =
       (?d\<lparr>slots := map (\<lambda>s. if slot_id s = booking_slot_id (example_booking 1 1)
                               then s\<lparr>availability := True\<rparr> else s) (slots ?d),
           bookings := remove1 (example_booking 1 1) (bookings ?d)\<rparr>, Inr True)"
    by (simp add: example_booking_def)
  then have a: "cancel_booking ?d 1 =
      (\<lparr>users = [example_user],
          slots = [example_slot 1 10 True, example_slot 2 11 True],
          bookings = []\<rparr>, Inr True)"
    by (simp add: example_slot_def example_booking_def)
  from cancel_booking_effect[OF wf, of 2] have b: "cancel_booking ?d 2 = (?d, Inr False)"
    by (simp add: example_booking_def)
  from wf a b show ?thesis by (intro conjI)
qed

lemma wf_db_set_availability: "wf_db d \<Longrightarrow> wf_db (set_availability d i v)"
  by (simp only: wf_db_def slot_ids_set_availability set_availability_simps(2))

lemma py_index_in_range:
  "0 \<le> i \<Longrightarrow> i < int (length xs) \<Longrightarrow> py_index xs i = Inr (xs ! nat i)"
  by (simp add: py_index_def)

text \<open>
  C10: the owner's block sets the availability of the chosen slot to false without looking
  at the bookings, so also on a booked slot; when a booking of that slot is cancelled
  afterwards, the cancellation succeeds and the slot is available again.
\<close>

theorem block_slot_then_cancel:
  assumes "wf_db d"
      and "0 \<le> idx" and "idx < int (length (filter (\<lambda>s. date s = dt) (slots d)))"
  shows "(let sel = filter (\<lambda>s. date s = dt) (slots d) ! nat idx;
              d1 = fst (block_slot d dt idx)
          in block_slot d dt idx =
               (d\<lparr>slots := map (\<lambda>s. if slot_id s = slot_id sel then s\<lparr>availability := False\<rparr> else s)
                               (slots d)\<rparr>, Inr True)
           \<and> sel\<lparr>availability := False\<rparr> \<in> set (slots d1)
           \<and> (\<forall>b. b \<in> set (bookings d) \<and> booking_slot_id b = slot_id sel \<longrightarrow>
                 snd (cancel_booking d1 (booking_id b)) = Inr True
                 \<and> sel\<lparr>availability := True\<rparr> \<in> set (slots (fst (cancel_booking d1 (booking_id b))))
                 \<and> (\<forall>s\<in>set (slots (fst (cancel_booking d1 (booking_id b)))).
                       slot_id s = slot_id sel \<longrightarrow> availability s)))"
proof -
  let ?day = "filter (\<lambda>s. date s = dt) (slots d)"
  let ?sel = "?day ! nat idx"
  let ?d1 = "d\<lparr>slots := map (\<lambda>s. if slot_id s = slot_id ?sel then s\<lparr>availability := False\<rparr> else s)
                               (slots d)\<rparr>"
  from assms(2,3) have ne: "?day \<noteq> []" by auto
  from assms(2,3) have "nat idx < length ?day" by simp
  then have "?sel \<in> set ?day" by (rule nth_mem)
  then have sel: "?sel \<in> set (slots d)" by simp
  have blk: "block_slot d dt idx = (?d1, Inr True)"
    unfolding block_slot_def Let_def
    by (simp only: ne if_False py_index_in_range[OF assms(2,3)] sum.case set_availability_def)
  have d1: "fst (block_slot d dt idx) = ?d1" by (simp only: blk fst_conv)
  have wf1: "wf_db ?d1"
    using wf_db_set_availability[OF assms(1), of "slot_id ?sel" False]
    by (simp only: set_availability_def)
  have c2: "?sel\<lparr>availability := False\<rparr> \<in> set (slots ?d1)"
    using sel by force
  have c3: "snd (cancel_booking ?d1 (booking_id b)) = Inr True
          \<and> ?sel\<lparr>availability := True\<rparr> \<in> set (slots (fst (cancel_booking ?d1 (booking_id b))))
          \<and> (\<forall>s\<in>set (slots (fst (cancel_booking ?d1 (booking_id b)))).
                       slot_id s = slot_id ?sel \<longrightarrow> availability s)"
    if b: "b \<in> set (bookings d) \<and> booking_slot_id b = slot_id ?sel" for b
  proof -
    from b have "b \<in> set (bookings ?d1)" by simp
    from cancel_booking_found[OF wf1 this] b have
      eq: "cancel_booking ?d1 (booking_id b) =
        (?d1\<lparr>slots := map (\<lambda>s. if slot_id s = slot_id ?sel then s\<lparr>availability := True\<rparr> else s)
                              (slots ?d1),
             bookings := remove1 b (bookings ?d1)\<rparr>, Inr True)"
      by simp
    let ?g = "\<lambda>s. if slot_id s = slot_id ?sel then s\<lparr>availability := True\<rparr> else s"
    have sl: "slots (fst (cancel_booking ?d1 (booking_id b))) = map ?g (slots ?d1)"
      unfolding eq by simp
    have gs: "?g (?sel\<lparr>availability := False\<rparr>) = ?sel\<lparr>availability := True\<rparr>"
      by simp
    have "?g (?sel\<lparr>availability := False\<rparr>) \<in> ?g ` set (slots ?d1)"
      using c2 by (rule imageI)
    then have x: "?sel\<lparr>availability := True\<rparr> \<in> set (slots (fst (cancel_booking ?d1 (booking_id b))))"
      unfolding sl set_map by (simp only: gs)
    have y: "\<forall>s\<in>set (slots (fst (cancel_booking ?d1 (booking_id b)))).
                       slot_id s = slot_id ?sel \<longrightarrow> availability s"
    proof
      fix s' assume "s' \<in> set (slots (fst (cancel_booking ?d1 (booking_id b))))"
      then obtain s0 where "s' = ?g s0" unfolding sl set_map by blast
      then show "slot_id s' = slot_id ?sel \<longrightarrow> availability s'"
        by (cases "slot_id s0 = slot_id ?sel") simp_all
    qed
    have z: "snd (cancel_booking ?d1 (booking_id b)) = Inr True" by (simp only: eq snd_conv)
    from z x y show ?thesis by (intro conjI)
  qed
  show ?thesis
    unfolding Let_def d1 using blk c2 c3 by blast
qed


theorem block_slot_then_cancel_witness:
  "wf_db \<lparr>users = [example_user],
          slots = [example_slot 1 10 False, example_slot 2 11 True],
          bookings = [example_booking 1 1]\<rparr>
   \<and> block_slot \<lparr>users = [example_user],
          slots = [example_slot 1 10 False, example_slot 2 11 True],
          bookings = [example_booking 1 1]\<rparr> (Date 2024 6 1) 0
     = (\<lparr>users = [example_user],
          slots = [example_slot 1 10 False, example_slot 2 11 True],
          bookings = [example_booking 1 1]\<rparr>, Inr True)
   \<and> cancel_booking (fst (block_slot \<lparr>users = [example_user],
          slots = [example_slot 1 10 False, example_slot 2 11 True],
          bookings = [example_booking 1 1]\<rparr> (Date 2024 6 1) 0)) 1
     = (\<lparr>users = [example_user],
          slots = [example_slot 1 10 True, example_slot 2 11 True],
          bookings = []\<rparr>, Inr True)"
proof -
  let ?d = "\<lparr>users = [example_user],
          slots = [example_slot 1 10 False, example_slot 2 11 True],
          bookings = [example_booking 1 1]\<rparr>"
  have wf: "wf_db ?d"
    by (simp add: wf_db_def example_slot_def example_booking_def)
  have i0: "(0::int) \<le> 0" by simp
  have i1: "0 < int (length (filter (\<lambda>s. date s = Date 2024 6 1) (slots ?d)))"
    by (simp add: example_slot_def)
  have sel: "filter (\<lambda>s. date s = Date 2024 6 1) (slots ?d) ! nat 0 = example_slot 1 10 False"
    by (simp add: example_slot_def)
  note t = block_slot_then_cancel[OF wf i0 i1, unfolded Let_def sel]
  have "?d\<lparr>slots := map (\<lambda>s. if slot_id s = slot_id (example_slot 1 10 False)
                                 then s\<lparr>availability := False\<rparr> else s) (slots ?d)\<rparr> = ?d"
    by (simp add: example_slot_def)
  with t[THEN conjunct1] have a: "block_slot ?d (Date 2024 6 1) 0 = (?d, Inr True)"
    by (simp only:)
  have b: "cancel_booking (fst (block_slot ?d (Date 2024 6 1) 0)) 1 =
      (\<lparr>users = [example_user],
          slots = [example_slot 1 10 True, example_slot 2 11 True],
          bookings = []\<rparr>, Inr True)"
    unfolding a by (simp add: cancel_booking_def set_availability_def example_slot_def example_booking_def)
  from wf a b show ?thesis by (intro conjI)
qed

section \<open>The invariant of the booking tables and the states of a slot\<close>

lemma add_slot_simps:
  "users (add_slot d st et dt) = users d"
  "bookings (add_slot d st et dt) = bookings d"
  by (simp_all add: add_slot_def)

lemma bookings_of_cong:
  "bookings d' = bookings d \<Longrightarrow> bookings_of d' i = bookings_of d i"
  by (simp add: bookings_of_def)

lemma slot_state_of_cong:
  "bookings_of d' (slot_id s) = bookings_of d (slot_id s) \<Longrightarrow> slot_state_of d' s = slot_state_of d s"
  by (simp add: slot_state_of_def)

lemma state_of_member:
  assumes "distinct (map slot_id (slots d))" "s \<in> set (slots d)"
  shows "state_of d (slot_id s) = Some (slot_state_of d s)"
  using find_key_unique[OF assms] by (simp add: state_of_def slot_by_id_def)

lemma state_of_Some:
  assumes "state_of d i = Some st"
  shows "\<exists>s\<in>set (slots d). slot_id s = i \<and> slot_state_of d s = st"
proof -
  from assms obtain s where "find (\<lambda>s. slot_id s = i) (slots d) = Some s" "slot_state_of d s = st"
    by (auto simp: state_of_def slot_by_id_def)
  then show ?thesis by (auto simp: find_Some_iff)
qed

lemma booking_inv_empty: "booking_inv empty_db"
  by (simp add: booking_inv_def wf_db_def empty_db_def)

lemma filter_unreferenced: "i \<notin> set (map f xs) \<Longrightarrow> filter (\<lambda>x. f x = i) xs = []"
  by (induction xs) auto

lemma bookings_of_unreferenced:
  "i \<notin> set (map booking_slot_id (bookings d)) \<Longrightarrow> bookings_of d i = []"
  by (auto simp: bookings_of_def filter_empty_conv)

lemma bookings_of_nonempty:
  "b \<in> set (bookings d) \<Longrightarrow> bookings_of d (booking_slot_id b) \<noteq> []"
  by (auto simp: bookings_of_def filter_empty_conv)

lemma booking_inv_add_slot:
  assumes "booking_inv d"
  shows "booking_inv (add_slot d st et dt)"
proof -
  let ?n = "next_rowid (map slot_id (slots d))"
  let ?new = "\<lparr>slot_id = ?n, start_time = st, end_time = et, date = dt, availability = True\<rparr>"
  from assms have wf: "wf_db d" and db: "distinct (map booking_slot_id (bookings d))"
    and av: "\<forall>s\<in>set (slots d). availability s \<longrightarrow> bookings_of d (slot_id s) = []"
    by (simp_all add: booking_inv_def)
  have fresh: "?n \<notin> set (map slot_id (slots d))" by (rule next_rowid_notin)
  from wf have fk: "set (map booking_slot_id (bookings d)) \<subseteq> set (map slot_id (slots d))"
    by (simp add: wf_db_def)
  with fresh have "?n \<notin> set (map booking_slot_id (bookings d))" by blast
  then have nonew: "bookings_of d ?n = []" by (rule bookings_of_unreferenced)
  have sl: "slots (add_slot d st et dt) = slots d @ [?new]" by (rule slots_add_slot)
  have bk: "bookings (add_slot d st et dt) = bookings d" by (rule add_slot_simps)
  have wf': "wf_db (add_slot d st et dt)"
    using wf fresh unfolding wf_db_def sl bk by auto
  have av': "\<forall>s\<in>set (slots (add_slot d st et dt)).
      availability s \<longrightarrow> bookings_of (add_slot d st et dt) (slot_id s) = []"
    unfolding sl bookings_of_cong[OF bk] using av nonew by auto
  from wf' db av' show ?thesis unfolding booking_inv_def bk by blast
qed

lemma foldl_preserves:
  "(\<And>d x. P d \<Longrightarrow> P (f d x)) \<Longrightarrow> P d \<Longrightarrow> P (foldl f d xs)"
  by (induction xs arbitrary: d) simp_all

lemma booking_inv_generate:
  "booking_inv d \<Longrightarrow> booking_inv (generate_slots_for_date d dt)"
  unfolding generate_slots_for_date_def
  by (simp only: split: if_splits) (auto intro: foldl_preserves booking_inv_add_slot)

lemma booking_inv_create_slot:
  "booking_inv d \<Longrightarrow> booking_inv (fst (create_slot d dt h))"
  by (auto simp: create_slot_def Let_def booking_inv_add_slot split: sum.splits)

lemma booking_inv_register:
  "booking_inv d \<Longrightarrow> booking_inv (fst (register_user lib salt d nm em ph pw rl))"
  by (simp add: register_user_def Let_def booking_inv_def wf_db_def bookings_of_def
        split: sum.splits)


lemma slots_after_set:
  assumes "s' \<in> set (slots (set_availability d j v))"
  shows "\<exists>s\<in>set (slots d). slot_id s = slot_id s' \<and>
           (if slot_id s = j then s' = s\<lparr>availability := v\<rparr> else s' = s)"
proof -
  from assms have "s' \<in> (\<lambda>s. if slot_id s = j then s\<lparr>availability := v\<rparr> else s) ` set (slots d)"
    by (simp only: set_availability_simps set_map)
  then obtain s where s: "s \<in> set (slots d)"
    "s' = (if slot_id s = j then s\<lparr>availability := v\<rparr> else s)" by blast
  then show ?thesis by (cases "slot_id s = j") auto
qed

lemma booking_inv_block:
  assumes "booking_inv d"
  shows "booking_inv (set_availability d j False)"
proof -
  from assms have wf: "wf_db d" and db: "distinct (map booking_slot_id (bookings d))"
    and av: "\<forall>s\<in>set (slots d). availability s \<longrightarrow> bookings_of d (slot_id s) = []"
    by (simp_all add: booking_inv_def)
  have bk: "bookings (set_availability d j False) = bookings d" by (rule set_availability_simps)
  have av': "\<forall>s'\<in>set (slots (set_availability d j False)).
      availability s' \<longrightarrow> bookings_of (set_availability d j False) (slot_id s') = []"
  proof (intro ballI impI)
    fix s' assume m: "s' \<in> set (slots (set_availability d j False))" and a: "availability s'"
    from slots_after_set[OF m] obtain s where s: "s \<in> set (slots d)" "slot_id s = slot_id s'"
      "if slot_id s = j then s' = s\<lparr>availability := False\<rparr> else s' = s" by blast
    from s(3) a have "s' = s" by (cases "slot_id s = j") auto
    with s(1) a av have "bookings_of d (slot_id s') = []" by blast
    then show "bookings_of (set_availability d j False) (slot_id s') = []"
      by (simp only: bookings_of_cong[OF bk])
  qed
  from wf_db_set_availability[OF wf] db av' show ?thesis
    unfolding booking_inv_def bk by blast
qed

lemma booking_inv_block_slot:
  "booking_inv d \<Longrightarrow> booking_inv (fst (block_slot d dt i))"
  by (auto simp: block_slot_def Let_def booking_inv_block split: sum.splits)

lemma inv_unreferenced_available:
  assumes "booking_inv d" "i \<in> available_ids d"
  shows "i \<notin> set (map booking_slot_id (bookings d))"
proof
  assume "i \<in> set (map booking_slot_id (bookings d))"
  then obtain b where b: "b \<in> set (bookings d)" "booking_slot_id b = i" by auto
  from assms(2) obtain s where s: "s \<in> set (slots d)" "slot_id s = i" "availability s"
    by (auto simp: available_ids_def)
  with assms(1) have "bookings_of d i = []" by (auto simp: booking_inv_def)
  with bookings_of_nonempty[OF b(1)] b(2) show False by simp
qed

lemma distinct_fresh_ids:
  "distinct (ids @ map (\<lambda>k. next_rowid ids + int k) [0..<n]) = distinct ids"
proof -
  have "distinct (map (\<lambda>k. next_rowid ids + int k) [0..<n])"
    by (simp add: distinct_map inj_on_def)
  moreover have "set ids \<inter> set (map (\<lambda>k. next_rowid ids + int k) [0..<n]) = {}"
  proof -
    have "i < next_rowid ids + int k" if "i \<in> set ids" for i k
      using next_rowid_greater[OF that] by simp
    then show ?thesis by fastforce
  qed
  ultimately show ?thesis by simp
qed

lemma booking_inv_book_loop:
  assumes inv: "booking_inv d" and loop: "book_loop d uid ids [] = (d', res)"
  shows "booking_inv d'"
proof -
  from inv have wf: "wf_db d" and db: "distinct (map booking_slot_id (bookings d))"
    and av: "\<forall>s\<in>set (slots d). availability s \<longrightarrow> bookings_of d (slot_id s) = []"
    by (simp_all add: booking_inv_def)
  from book_loop_result[OF loop] obtain nb where
    r: "bookings d' = bookings d @ nb"
       "map booking_slot_id nb = map slot_id res"
       "map booking_id nb = map (\<lambda>k. next_rowid (map booking_id (bookings d)) + int k) [0..<length nb]"
       "distinct (map slot_id res)"
       "set (map slot_id res) = set ids \<inter> available_ids d"
    by auto
  have sl: "slots d' = map (\<lambda>s. if slot_id s \<in> set ids then s\<lparr>availability := False\<rparr> else s) (slots d)"
    by (rule book_loop_slots[OF loop])
  have ids': "map slot_id (slots d') = map slot_id (slots d)"
  proof -
    have "slot_id (if c then s\<lparr>availability := False\<rparr> else s) = slot_id s" for c and s :: slot
      by simp
    then show ?thesis by (simp add: sl o_def)
  qed
  have nbs: "set (map booking_slot_id nb) = set ids \<inter> available_ids d"
    by (simp only: r(2) r(5))
  have sub: "available_ids d \<subseteq> set (map slot_id (slots d))"
    by (auto simp: available_ids_def)
  have disj: "set (map booking_slot_id (bookings d)) \<inter> set (map booking_slot_id nb) = {}"
    unfolding nbs using inv_unreferenced_available[OF inv] by blast
  have w1: "distinct (map slot_id (slots d'))" using wf by (simp only: ids' wf_db_def)
  have w2: "distinct (map booking_id (bookings d'))"
    using wf unfolding r(1) map_append r(3) distinct_fresh_ids wf_db_def by blast
  have w3: "set (map booking_slot_id (bookings d')) \<subseteq> set (map slot_id (slots d'))"
    using wf sub unfolding ids' r(1) map_append set_append nbs wf_db_def by blast
  have i2: "distinct (map booking_slot_id (bookings d'))"
    unfolding r(1) map_append distinct_append
    using db r(4) disj by (simp only: r(2))
  have i3: "\<forall>s'\<in>set (slots d'). availability s' \<longrightarrow> bookings_of d' (slot_id s') = []"
  proof (intro ballI impI)
    fix s' assume m: "s' \<in> set (slots d')" and a: "availability s'"
    from m have "s' \<in> (\<lambda>s. if slot_id s \<in> set ids then s\<lparr>availability := False\<rparr> else s) ` set (slots d)"
      by (simp only: sl set_map)
    then obtain s where s: "s \<in> set (slots d)"
      "s' = (if slot_id s \<in> set ids then s\<lparr>availability := False\<rparr> else s)" by blast
    from s(2) a have nin: "slot_id s \<notin> set ids" and eq: "s' = s"
      by (cases "slot_id s \<in> set ids"; simp)+
    from s(1) a av eq have old: "bookings_of d (slot_id s') = []" by blast
    from nin eq nbs have "slot_id s' \<notin> set (map booking_slot_id nb)" by blast
    then have "filter (\<lambda>b. booking_slot_id b = slot_id s') nb = []"
      by (rule filter_unreferenced)
    with old show "bookings_of d' (slot_id s') = []"
      by (simp add: bookings_of_def r(1))
  qed
  from w1 w2 w3 i2 i3 show ?thesis unfolding booking_inv_def wf_db_def by blast
qed

lemma fst_book_slot: "fst (book_slot d uid ids) = fst (book_loop d uid ids [])"
  by (simp add: book_slot_def split: prod.splits option.splits)

lemma booking_inv_book_slot:
  "booking_inv d \<Longrightarrow> booking_inv (fst (book_slot d uid ids))"
  unfolding fst_book_slot
  by (cases "book_loop d uid ids []") (simp add: booking_inv_book_loop)


lemma cancel_booking_cases:
  assumes "wf_db d"
  shows "cancel_booking d bid = (d, Inr False) \<or>
         (\<exists>b\<in>set (bookings d). booking_id b = bid \<and>
            cancel_booking d bid =
              (d\<lparr>slots := map (\<lambda>s. if slot_id s = booking_slot_id b then s\<lparr>availability := True\<rparr> else s)
                             (slots d),
                 bookings := remove1 b (bookings d)\<rparr>, Inr True))"
proof (cases "\<exists>b\<in>set (bookings d). booking_id b = bid")
  case True
  then obtain b where b: "b \<in> set (bookings d)" "booking_id b = bid" by blast
  from cancel_booking_found[OF assms b(1)] b show ?thesis by blast
next
  case False
  then have "\<forall>b\<in>set (bookings d). booking_id b \<noteq> bid" by blast
  from cancel_booking_missing[OF this] show ?thesis by blast
qed

lemma only_booking_of_slot:
  assumes "distinct (map booking_slot_id bs)" "b \<in> set bs"
  shows "filter (\<lambda>b'. booking_slot_id b' = booking_slot_id b) (remove1 b bs) = []"
proof -
  from assms(1) have d: "distinct bs" by (metis distinct_map)
  have "booking_slot_id b' \<noteq> booking_slot_id b" if "b' \<in> set (remove1 b bs)" for b'
  proof -
    from that d have "b' \<in> set bs" "b' \<noteq> b" by simp_all
    with assms show ?thesis by (metis distinct_map inj_onD)
  qed
  then show ?thesis by (simp add: filter_empty_conv)
qed

lemma booking_inv_cancel_found:
  assumes inv: "booking_inv d" and b: "b \<in> set (bookings d)"
  shows "booking_inv (d\<lparr>slots := map (\<lambda>s. if slot_id s = booking_slot_id b then s\<lparr>availability := True\<rparr> else s)
                             (slots d),
                 bookings := remove1 b (bookings d)\<rparr>)"
    (is "booking_inv ?d'")
proof -
  from inv have wf: "wf_db d" and db: "distinct (map booking_slot_id (bookings d))"
    and av: "\<forall>s\<in>set (slots d). availability s \<longrightarrow> bookings_of d (slot_id s) = []"
    by (simp_all add: booking_inv_def)
  have sl: "slots ?d' = map (\<lambda>s. if slot_id s = booking_slot_id b then s\<lparr>availability := True\<rparr> else s) (slots d)"
    by simp
  have bk: "bookings ?d' = remove1 b (bookings d)" by simp
  have ids': "map slot_id (slots ?d') = map slot_id (slots d)"
  proof -
    have "slot_id (if c then s\<lparr>availability := True\<rparr> else s) = slot_id s" for c and s :: slot
      by simp
    then show ?thesis by (simp add: o_def)
  qed
  have sub: "set (remove1 b (bookings d)) \<subseteq> set (bookings d)" by (rule set_remove1_subset)
  from wf have dbs: "distinct (bookings d)" unfolding wf_db_def by (metis distinct_map)
  have dm: "distinct (map f (remove1 b (bookings d)))" if "distinct (map f (bookings d))" for f :: "booking \<Rightarrow> int"
    using that by (simp add: distinct_map inj_on_def)
  have w1: "distinct (map slot_id (slots ?d'))" using wf by (simp only: ids' wf_db_def)
  have w2: "distinct (map booking_id (bookings ?d'))"
    unfolding bk using wf dm[of booking_id] by (simp only: wf_db_def)
  have w3: "set (map booking_slot_id (bookings ?d')) \<subseteq> set (map slot_id (slots ?d'))"
    unfolding bk ids' using wf sub unfolding wf_db_def by auto
  have i2: "distinct (map booking_slot_id (bookings ?d'))"
    unfolding bk using db by (rule dm)
  have i3: "\<forall>s'\<in>set (slots ?d'). availability s' \<longrightarrow> bookings_of ?d' (slot_id s') = []"
  proof (intro ballI impI)
    fix s' assume m: "s' \<in> set (slots ?d')" and a: "availability s'"
    from m have "s' \<in> (\<lambda>s. if slot_id s = booking_slot_id b then s\<lparr>availability := True\<rparr> else s) ` set (slots d)"
      by (simp only: sl set_map)
    then obtain s where s: "s \<in> set (slots d)"
      "s' = (if slot_id s = booking_slot_id b then s\<lparr>availability := True\<rparr> else s)" by blast
    show "bookings_of ?d' (slot_id s') = []"
    proof (cases "slot_id s = booking_slot_id b")
      case True
      with s(2) have "slot_id s' = booking_slot_id b" by simp
      then show ?thesis
        unfolding bookings_of_def bk by (simp only: only_booking_of_slot[OF db b])
    next
      case False
      with s(2) have eq: "s' = s" by simp
      with s(1) a av have "bookings_of d (slot_id s') = []" by blast
      then have "\<forall>x\<in>set (bookings d). booking_slot_id x \<noteq> slot_id s'"
        by (simp add: bookings_of_def filter_empty_conv)
      with sub have "\<forall>x\<in>set (remove1 b (bookings d)). booking_slot_id x \<noteq> slot_id s'" by blast
      then show ?thesis unfolding bookings_of_def bk by (simp add: filter_empty_conv)
    qed
  qed
  from w1 w2 w3 i2 i3 show ?thesis unfolding booking_inv_def wf_db_def by blast
qed

lemma booking_inv_cancel:
  assumes "booking_inv d"
  shows "booking_inv (fst (cancel_booking d bid))"
proof -
  from assms have wf: "wf_db d" by (simp add: booking_inv_def)
  from cancel_booking_cases[OF wf, of bid] show ?thesis
  proof
    assume "cancel_booking d bid = (d, Inr False)"
    with assms show ?thesis by simp
  next
    assume "\<exists>b\<in>set (bookings d). booking_id b = bid \<and>
            cancel_booking d bid =
              (d\<lparr>slots := map (\<lambda>s. if slot_id s = booking_slot_id b then s\<lparr>availability := True\<rparr> else s)
                             (slots d),
                 bookings := remove1 b (bookings d)\<rparr>, Inr True)"
    then obtain b where b: "b \<in> set (bookings d)" and
      eq: "cancel_booking d bid =
              (d\<lparr>slots := map (\<lambda>s. if slot_id s = booking_slot_id b then s\<lparr>availability := True\<rparr> else s)
                             (slots d),
                 bookings := remove1 b (bookings d)\<rparr>, Inr True)" by blast
    from booking_inv_cancel_found[OF assms b] show ?thesis by (simp only: eq fst_conv)
  qed
qed

lemma booking_inv_step: "booking_inv d \<Longrightarrow> booking_inv (step lib d opn)"
  by (cases opn)
     (simp_all only: step.simps booking_inv_register booking_inv_generate booking_inv_book_slot
        booking_inv_cancel booking_inv_create_slot booking_inv_block_slot)

lemma booking_inv_run: "booking_inv d \<Longrightarrow> booking_inv (run lib d ops)"
  unfolding run_def by (rule foldl_preserves[where P = booking_inv]) (rule booking_inv_step)

lemma booking_inv_reachable: "booking_inv (run lib empty_db ops)"
  by (rule booking_inv_run[OF booking_inv_empty])

lemma wf_db_reachable: "wf_db (run lib empty_db ops)"
  using booking_inv_reachable[of lib ops] by (simp add: booking_inv_def)

lemma at_most_one:
  "distinct (map f xs) \<Longrightarrow> length (filter (\<lambda>x. f x = i) xs) \<le> 1"
proof (cases "i \<in> set (map f xs)")
  case True
  assume "distinct (map f xs)"
  from count_one[OF this True] show ?thesis by simp
next
  case False
  from filter_unreferenced[OF this] show ?thesis by simp
qed

text \<open>
  C5, amended: in every state reached from the empty database by registering, generating,
  booking, cancelling, creating and blocking, at most one booking references any slot, and
  no booking references an available slot. So an unavailable slot has zero or one booking;
  the converse of the claim fails, since an available slot has zero bookings too.
\<close>

theorem booking_count_invariant:
  "\<forall>s\<in>set (slots (run lib empty_db ops)).
     length (bookings_of (run lib empty_db ops) (slot_id s)) \<le> 1
     \<and> (availability s \<longrightarrow> length (bookings_of (run lib empty_db ops) (slot_id s)) = 0)"
proof
  fix s assume s: "s \<in> set (slots (run lib empty_db ops))"
  let ?d = "run lib empty_db ops"
  have inv: "booking_inv ?d" by (rule booking_inv_reachable)
  then have "distinct (map booking_slot_id (bookings ?d))" by (simp add: booking_inv_def)
  then have a: "length (bookings_of ?d (slot_id s)) \<le> 1"
    unfolding bookings_of_def by (rule at_most_one)
  from inv s have b: "availability s \<longrightarrow> length (bookings_of ?d (slot_id s)) = 0"
    by (simp add: booking_inv_def)
  from a b show "length (bookings_of ?d (slot_id s)) \<le> 1
     \<and> (availability s \<longrightarrow> length (bookings_of ?d (slot_id s)) = 0)" by (intro conjI)
qed


lemma ta_refl: "transition_allowed st opn st"
  by (simp add: transition_allowed_def)

lemma ta_book: "transition_allowed Available (Book uid ids) Booked"
  by (simp add: transition_allowed_def)

lemma ta_cancel: "transition_allowed Booked (Cancel bid) Available"
  by (simp add: transition_allowed_def)

lemma ta_block: "transition_allowed Available (BlockSlot dt i) Blocked"
  by (simp add: transition_allowed_def)

lemma ta_blocked: "transition_allowed Blocked opn st' \<Longrightarrow> st' = Blocked"
  by (cases opn) (simp_all add: transition_allowed_def)

lemma transition_same:
  assumes "bookings d' = bookings d" "s \<in> set (slots d')"
  shows "\<exists>s'\<in>set (slots d'). slot_id s' = slot_id s \<and>
           transition_allowed (slot_state_of d s) opn (slot_state_of d' s')"
proof -
  have "slot_state_of d' s = slot_state_of d s"
    by (rule slot_state_of_cong[OF bookings_of_cong[OF assms(1)]])
  with assms(2) ta_refl[of "slot_state_of d s" opn] show ?thesis by auto
qed

lemma generate_keeps:
  "bookings (generate_slots_for_date d dt) = bookings d"
  "s \<in> set (slots d) \<Longrightarrow> s \<in> set (slots (generate_slots_for_date d dt))"
  by (simp_all add: generate_slots_for_date_def foldl_add_slot_slots foldl_add_slot_others)

lemma create_slot_keeps:
  "bookings (fst (create_slot d dt h)) = bookings d"
  "s \<in> set (slots d) \<Longrightarrow> s \<in> set (slots (fst (create_slot d dt h)))"
  by (simp_all add: create_slot_def Let_def slots_add_slot add_slot_simps split: sum.splits)

lemma register_keeps:
  "bookings (fst (register_user lib salt d nm em ph pw rl)) = bookings d"
  "slots (fst (register_user lib salt d nm em ph pw rl)) = slots d"
  by (simp_all add: register_user_def Let_def split: sum.splits)

lemma transition_block:
  assumes inv: "booking_inv d" and s: "s \<in> set (slots d)"
  shows "\<exists>s'\<in>set (slots (set_availability d j False)). slot_id s' = slot_id s \<and>
           transition_allowed (slot_state_of d s) (BlockSlot dt i)
             (slot_state_of (set_availability d j False) s')"
proof -
  let ?d' = "set_availability d j False"
  let ?g = "\<lambda>s. if slot_id s = j then s\<lparr>availability := False\<rparr> else s"
  have bk: "bookings ?d' = bookings d" by (rule set_availability_simps)
  have "?g s \<in> ?g ` set (slots d)" using s by (rule imageI)
  then have m: "?g s \<in> set (slots ?d')" by (simp only: set_availability_simps set_map)
  show ?thesis
  proof (cases "slot_id s = j")
    case False
    then have "?g s = s" by simp
    with m transition_same[OF bk, of s "BlockSlot dt i"] show ?thesis by simp
  next
    case True
    then have g: "?g s = s\<lparr>availability := False\<rparr>" by simp
    have st': "slot_state_of ?d' (s\<lparr>availability := False\<rparr>) =
        (if bookings_of d (slot_id s) = [] then Blocked else Booked)"
      by (simp add: slot_state_of_def bookings_of_cong[OF bk])
    have "transition_allowed (slot_state_of d s) (BlockSlot dt i)
             (if bookings_of d (slot_id s) = [] then Blocked else Booked)"
    proof (cases "availability s")
      case True
      with inv s have "bookings_of d (slot_id s) = []" by (simp add: booking_inv_def)
      with True show ?thesis by (simp add: slot_state_of_def ta_block)
    next
      case False
      then show ?thesis by (simp add: slot_state_of_def ta_refl)
    qed
    with m g st' show ?thesis by (intro bexI[of _ "s\<lparr>availability := False\<rparr>"]) simp_all
  qed
qed

lemma transition_block_slot:
  assumes inv: "booking_inv d" and s: "s \<in> set (slots d)"
  shows "\<exists>s'\<in>set (slots (fst (block_slot d dt i))). slot_id s' = slot_id s \<and>
           transition_allowed (slot_state_of d s) (BlockSlot dt i)
             (slot_state_of (fst (block_slot d dt i)) s')"
proof -
  have "fst (block_slot d dt i) = d \<or>
        (\<exists>j. fst (block_slot d dt i) = set_availability d j False)"
    by (auto simp: block_slot_def Let_def split: sum.splits)
  then show ?thesis
  proof
    assume "fst (block_slot d dt i) = d"
    with transition_same[where d' = d and d = d and opn = "BlockSlot dt i", OF refl s]
    show ?thesis by simp
  next
    assume "\<exists>j. fst (block_slot d dt i) = set_availability d j False"
    then obtain j where "fst (block_slot d dt i) = set_availability d j False" ..
    with transition_block[OF inv s, of j dt i] show ?thesis by simp
  qed
qed


lemma filter_referenced: "i \<in> set (map f xs) \<Longrightarrow> filter (\<lambda>x. f x = i) xs \<noteq> []"
  by (induction xs) auto

lemma unavailable_not_available_id:
  assumes "distinct (map slot_id (slots d))" "s \<in> set (slots d)" "\<not> availability s"
  shows "slot_id s \<notin> available_ids d"
proof
  assume "slot_id s \<in> available_ids d"
  then obtain s2 where s2: "s2 \<in> set (slots d)" "slot_id s2 = slot_id s" "availability s2"
    by (auto simp: available_ids_def)
  from assms(1) have "inj_on slot_id (set (slots d))" by (simp add: distinct_map)
  from inj_onD[OF this s2(2) s2(1) assms(2)] s2(3) assms(3) show False by simp
qed

lemma transition_book:
  assumes inv: "booking_inv d" and s: "s \<in> set (slots d)"
  shows "\<exists>s'\<in>set (slots (fst (book_slot d uid ids))). slot_id s' = slot_id s \<and>
           transition_allowed (slot_state_of d s) (Book uid ids)
             (slot_state_of (fst (book_slot d uid ids)) s')"
proof -
  obtain d' res where loop: "book_loop d uid ids [] = (d', res)" by (cases "book_loop d uid ids []")
  have d': "fst (book_slot d uid ids) = d'" by (simp only: fst_book_slot loop fst_conv)
  let ?i = "slot_id s"
  let ?g = "\<lambda>s. if slot_id s \<in> set ids then s\<lparr>availability := False\<rparr> else s"
  from inv have ds: "distinct (map slot_id (slots d))"
    and av: "\<forall>s\<in>set (slots d). availability s \<longrightarrow> bookings_of d (slot_id s) = []"
    by (simp_all add: booking_inv_def wf_db_def)
  from book_loop_result[OF loop] obtain nb where
    r: "bookings d' = bookings d @ nb" "map booking_slot_id nb = map slot_id res"
       "set (map slot_id res) = set ids \<inter> available_ids d"
    by auto
  have nbs: "set (map booking_slot_id nb) = set ids \<inter> available_ids d"
    by (simp only: r(2) r(3))
  have sl: "slots d' = map ?g (slots d)" by (rule book_loop_slots[OF loop])
  have "?g s \<in> ?g ` set (slots d)" using s by (rule imageI)
  then have m: "?g s \<in> set (slots d')" by (simp only: sl set_map)
  have bo: "bookings_of d' ?i = bookings_of d ?i @ filter (\<lambda>b. booking_slot_id b = ?i) nb"
    by (simp add: bookings_of_def r(1))
  have "slot_id (?g s) = ?i \<and>
        transition_allowed (slot_state_of d s) (Book uid ids) (slot_state_of d' (?g s))"
  proof (cases "availability s")
    case True
    with av s have old: "bookings_of d ?i = []" by blast
    from True s have ia: "?i \<in> available_ids d" by (auto simp: available_ids_def)
    have st: "slot_state_of d s = Available" using True by (simp add: slot_state_of_def)
    show ?thesis
    proof (cases "?i \<in> set ids")
      case True
      with ia nbs have "?i \<in> set (map booking_slot_id nb)" by blast
      from filter_referenced[OF this] have "bookings_of d' ?i \<noteq> []" by (simp add: bo)
      with True have "slot_state_of d' (?g s) = Booked" by (simp add: slot_state_of_def)
      with True st show ?thesis by (simp add: ta_book)
    next
      case False
      with nbs have "?i \<notin> set (map booking_slot_id nb)" by blast
      from filter_unreferenced[OF this] old have "bookings_of d' ?i = []" by (simp add: bo)
      with False \<open>availability s\<close> have "slot_state_of d' (?g s) = Available"
        by (simp add: slot_state_of_def)
      with False st show ?thesis by (simp add: ta_refl)
    qed
  next
    case False
    then have g: "?g s = s" by simp
    from unavailable_not_available_id[OF ds s False] nbs
    have "?i \<notin> set (map booking_slot_id nb)" by blast
    from filter_unreferenced[OF this] have "bookings_of d' ?i = bookings_of d ?i" by (simp add: bo)
    from slot_state_of_cong[OF this] g show ?thesis by (simp add: ta_refl)
  qed
  with m show ?thesis unfolding d' by blast
qed

lemma transition_cancel:
  assumes inv: "booking_inv d" and s: "s \<in> set (slots d)"
  shows "\<exists>s'\<in>set (slots (fst (cancel_booking d bid))). slot_id s' = slot_id s \<and>
           transition_allowed (slot_state_of d s) (Cancel bid)
             (slot_state_of (fst (cancel_booking d bid)) s')"
proof -
  from inv have wf: "wf_db d"
    and av: "\<forall>s\<in>set (slots d). availability s \<longrightarrow> bookings_of d (slot_id s) = []"
    by (simp_all add: booking_inv_def)
  from cancel_booking_cases[OF wf, of bid] show ?thesis
  proof
    assume "cancel_booking d bid = (d, Inr False)"
    then have "fst (cancel_booking d bid) = d" by simp
    with transition_same[where d' = d and d = d and opn = "Cancel bid", OF refl s]
    show ?thesis by simp
  next
    assume "\<exists>b\<in>set (bookings d). booking_id b = bid \<and>
            cancel_booking d bid =
              (d\<lparr>slots := map (\<lambda>s. if slot_id s = booking_slot_id b then s\<lparr>availability := True\<rparr> else s)
                             (slots d),
                 bookings := remove1 b (bookings d)\<rparr>, Inr True)"
    then obtain b where b: "b \<in> set (bookings d)" and
      eq: "cancel_booking d bid =
              (d\<lparr>slots := map (\<lambda>s. if slot_id s = booking_slot_id b then s\<lparr>availability := True\<rparr> else s)
                             (slots d),
                 bookings := remove1 b (bookings d)\<rparr>, Inr True)" by blast
    let ?g = "\<lambda>s. if slot_id s = booking_slot_id b then s\<lparr>availability := True\<rparr> else s"
    let ?d' = "d\<lparr>slots := map ?g (slots d), bookings := remove1 b (bookings d)\<rparr>"
    have d': "fst (cancel_booking d bid) = ?d'" by (simp only: eq fst_conv)
    have sl: "slots ?d' = map ?g (slots d)" by simp
    have bk: "bookings ?d' = remove1 b (bookings d)" by simp
    have "?g s \<in> ?g ` set (slots d)" using s by (rule imageI)
    then have m: "?g s \<in> set (slots ?d')" by (simp only: sl set_map)
    have "slot_id (?g s) = slot_id s \<and>
        transition_allowed (slot_state_of d s) (Cancel bid) (slot_state_of ?d' (?g s))"
    proof (cases "slot_id s = booking_slot_id b")
      case True
      from bookings_of_nonempty[OF b] True have ne: "bookings_of d (slot_id s) \<noteq> []" by simp
      with av s have una: "\<not> availability s" by blast
      with ne have "slot_state_of d s = Booked" by (simp add: slot_state_of_def)
      moreover from True have "slot_state_of ?d' (?g s) = Available"
        by (simp add: slot_state_of_def)
      ultimately show ?thesis using True by (simp add: ta_cancel)
    next
      case False
      then have g: "?g s = s" by simp
      from False have "b \<notin> set (filter (\<lambda>b'. booking_slot_id b' = slot_id s) (bookings d))"
        by simp
      then have "bookings_of ?d' (slot_id s) = bookings_of d (slot_id s)"
        unfolding bookings_of_def bk filter_remove1 by (rule remove1_idem)
      from slot_state_of_cong[OF this] g show ?thesis by (simp add: ta_refl)
    qed
    with m show ?thesis unfolding d' by blast
  qed
qed

lemma step_transition:
  assumes inv: "booking_inv d" and s: "s \<in> set (slots d)"
  shows "\<exists>s'\<in>set (slots (step lib d opn)). slot_id s' = slot_id s \<and>
           transition_allowed (slot_state_of d s) opn (slot_state_of (step lib d opn) s')"
proof (cases opn)
  case (Register salt nm em ph pw rl)
  from s have "s \<in> set (slots (fst (register_user lib salt d nm em ph pw rl)))"
    by (simp only: register_keeps)
  from transition_same[OF register_keeps(1) this] show ?thesis
    unfolding Register step.simps .
next
  case (Generate dt)
  from transition_same[OF generate_keeps(1) generate_keeps(2)[OF s]] show ?thesis
    unfolding Generate step.simps .
next
  case (Book uid ids)
  from transition_book[OF inv s] show ?thesis unfolding Book step.simps .
next
  case (Cancel bid)
  from transition_cancel[OF inv s] show ?thesis unfolding Cancel step.simps .
next
  case (CreateSlot dt h)
  from transition_same[OF create_slot_keeps(1) create_slot_keeps(2)[OF s]] show ?thesis
    unfolding CreateSlot step.simps .
next
  case (BlockSlot dt i)
  from transition_block_slot[OF inv s] show ?thesis unfolding BlockSlot step.simps .
qed

lemma state_of_step:
  assumes inv: "booking_inv d" and st: "state_of d i = Some st"
  shows "\<exists>st'. state_of (step lib d opn) i = Some st' \<and> transition_allowed st opn st'"
proof -
  from state_of_Some[OF st] obtain s where
    s: "s \<in> set (slots d)" "slot_id s = i" "slot_state_of d s = st" by blast
  from step_transition[OF inv s(1), of lib opn] obtain s' where
    s': "s' \<in> set (slots (step lib d opn))" "slot_id s' = slot_id s"
        "transition_allowed (slot_state_of d s) opn (slot_state_of (step lib d opn) s')"
    by blast
  from booking_inv_step[OF inv, of lib opn] have
    "distinct (map slot_id (slots (step lib d opn)))"
    by (simp add: booking_inv_def wf_db_def)
  from state_of_member[OF this s'(1)] s'(2) s(2) have
    "state_of (step lib d opn) i = Some (slot_state_of (step lib d opn) s')" by simp
  with s'(3) s(3) show ?thesis by blast
qed

lemma blocked_run:
  "booking_inv d \<Longrightarrow> state_of d i = Some Blocked \<Longrightarrow> state_of (run lib d ops) i = Some Blocked"
proof (induction ops arbitrary: d)
  case Nil
  then show ?case by (simp add: run_def)
next
  case (Cons opn ops)
  from state_of_step[OF Cons.prems, of lib opn] ta_blocked
  have "state_of (step lib d opn) i = Some Blocked" by blast
  from Cons.IH[OF booking_inv_step[OF Cons.prems(1)] this] show ?case
    by (simp add: run_def)
qed

text \<open>
  C8: in every reachable state, a slot that is unavailable with no booking referencing it
  stays so under every further sequence of operations; and one operation changes the state
  of a slot only from available to booked (a booking), from booked to available (a
  cancellation) or from available to blocked (the owner's block).
\<close>

theorem blocked_is_final:
  "(state_of (run lib empty_db ops0) i = Some Blocked \<longrightarrow>
      state_of (run lib (run lib empty_db ops0) ops) i = Some Blocked)
   \<and> (\<forall>st. state_of (run lib empty_db ops0) i = Some st \<longrightarrow>
         (\<exists>st'. state_of (step lib (run lib empty_db ops0) opn) i = Some st'
               \<and> transition_allowed st opn st'))"
  using blocked_run[OF booking_inv_reachable] state_of_step[OF booking_inv_reachable]
  by blast


lemma example_run_created:
  "run example_lib empty_db [CreateSlot (Date 2024 6 1) 10, CreateSlot (Date 2024 6 1) 11]
   = \<lparr>users = [], slots = [example_slot 1 10 True, example_slot 2 11 True], bookings = []\<rparr>"
  by (simp add: run_def create_slot_def py_time_def add_slot_def next_rowid_def empty_db_def
        example_slot_def)

lemma example_run_booked:
  "run example_lib empty_db
     [CreateSlot (Date 2024 6 1) 10, CreateSlot (Date 2024 6 1) 11, Book 7 [1]]
   = \<lparr>users = [], slots = [example_slot 1 10 False, example_slot 2 11 True],
       bookings = [example_booking 1 1]\<rparr>"
  by (simp add: run_def create_slot_def py_time_def add_slot_def next_rowid_def empty_db_def
        example_slot_def example_booking_def book_slot_def add_booking_def set_availability_def
        send_notification_def)

lemma example_run_blocked:
  "run example_lib empty_db
     [CreateSlot (Date 2024 6 1) 10, CreateSlot (Date 2024 6 1) 11, BlockSlot (Date 2024 6 1) 0]
   = \<lparr>users = [], slots = [example_slot 1 10 False, example_slot 2 11 True], bookings = []\<rparr>"
  by (simp add: run_def create_slot_def py_time_def add_slot_def next_rowid_def empty_db_def
        example_slot_def block_slot_def py_index_def set_availability_def)

text \<open>
  A created slot is available and has zero bookings: "unavailable if and only if zero or
  one booking" is false of it.
\<close>

theorem available_slot_counterexample:
  "example_slot 1 10 True \<in> set (slots (run example_lib empty_db
       [CreateSlot (Date 2024 6 1) 10, CreateSlot (Date 2024 6 1) 11]))
   \<and> \<not> ((\<not> availability (example_slot 1 10 True)) =
        (length (bookings_of (run example_lib empty_db
             [CreateSlot (Date 2024 6 1) 10, CreateSlot (Date 2024 6 1) 11])
           (slot_id (example_slot 1 10 True))) = 0
         \<or> length (bookings_of (run example_lib empty_db
             [CreateSlot (Date 2024 6 1) 10, CreateSlot (Date 2024 6 1) 11])
           (slot_id (example_slot 1 10 True))) = 1))"
  unfolding example_run_created
  by (simp add: example_slot_def bookings_of_def)

theorem booking_count_invariant_witness:
  "example_slot 2 11 True \<in> set (slots (run example_lib empty_db
       [CreateSlot (Date 2024 6 1) 10, CreateSlot (Date 2024 6 1) 11, Book 7 [1]]))
   \<and> availability (example_slot 2 11 True)
   \<and> length (bookings_of (run example_lib empty_db
       [CreateSlot (Date 2024 6 1) 10, CreateSlot (Date 2024 6 1) 11, Book 7 [1]])
         (slot_id (example_slot 2 11 True))) = 0
   \<and> example_slot 1 10 False \<in> set (slots (run example_lib empty_db
       [CreateSlot (Date 2024 6 1) 10, CreateSlot (Date 2024 6 1) 11, Book 7 [1]]))
   \<and> length (bookings_of (run example_lib empty_db
       [CreateSlot (Date 2024 6 1) 10, CreateSlot (Date 2024 6 1) 11, Book 7 [1]])
         (slot_id (example_slot 1 10 False))) \<le> 1
   \<and> bookings_of (run example_lib empty_db
       [CreateSlot (Date 2024 6 1) 10, CreateSlot (Date 2024 6 1) 11, Book 7 [1]])
         (slot_id (example_slot 1 10 False)) = [example_booking 1 1]"
proof -
  let ?d = "run example_lib empty_db
       [CreateSlot (Date 2024 6 1) 10, CreateSlot (Date 2024 6 1) 11, Book 7 [1]]"
  have m2: "example_slot 2 11 True \<in> set (slots ?d)" unfolding example_run_booked by simp
  have m1: "example_slot 1 10 False \<in> set (slots ?d)" unfolding example_run_booked by simp
  have a2: "availability (example_slot 2 11 True)" by (simp add: example_slot_def)
  note t2 = booking_count_invariant[THEN bspec, OF m2]
  note t1 = booking_count_invariant[THEN bspec, OF m1]
  from t2[THEN conjunct2, THEN mp, OF a2]
  have c2: "length (bookings_of ?d (slot_id (example_slot 2 11 True))) = 0" .
  from t1[THEN conjunct1]
  have c1: "length (bookings_of ?d (slot_id (example_slot 1 10 False))) \<le> 1" .
  have e1: "bookings_of ?d (slot_id (example_slot 1 10 False)) = [example_booking 1 1]"
    unfolding example_run_booked by (simp add: bookings_of_def example_slot_def example_booking_def)
  from m2 a2 c2 m1 c1 e1 show ?thesis by (intro conjI)
qed

theorem blocked_is_final_witness:
  "state_of (run example_lib empty_db
       [CreateSlot (Date 2024 6 1) 10, CreateSlot (Date 2024 6 1) 11, BlockSlot (Date 2024 6 1) 0]) 1
     = Some Blocked
   \<and> state_of (run example_lib (run example_lib empty_db
       [CreateSlot (Date 2024 6 1) 10, CreateSlot (Date 2024 6 1) 11, BlockSlot (Date 2024 6 1) 0])
       [Book 7 [1, 2], Cancel 1, BlockSlot (Date 2024 6 1) 1, Generate (Date 2024 6 1)]) 1
     = Some Blocked
   \<and> state_of (run example_lib empty_db
       [CreateSlot (Date 2024 6 1) 10, CreateSlot (Date 2024 6 1) 11, BlockSlot (Date 2024 6 1) 0]) 2
     = Some Available
   \<and> (\<exists>st'. state_of (step example_lib (run example_lib empty_db
       [CreateSlot (Date 2024 6 1) 10, CreateSlot (Date 2024 6 1) 11, BlockSlot (Date 2024 6 1) 0])
         (Book 7 [2])) 2 = Some st' \<and> transition_allowed Available (Book 7 [2]) st')
   \<and> state_of (step example_lib (run example_lib empty_db
       [CreateSlot (Date 2024 6 1) 10, CreateSlot (Date 2024 6 1) 11, BlockSlot (Date 2024 6 1) 0])
         (Book 7 [2])) 2 = Some Booked"
proof -
  let ?h = example_lib
  let ?ops0 = "[CreateSlot (Date 2024 6 1) 10, CreateSlot (Date 2024 6 1) 11, BlockSlot (Date 2024 6 1) 0]"
  let ?d = "run ?h empty_db ?ops0"
  have b1: "state_of ?d 1 = Some Blocked"
    unfolding example_run_blocked
    by (simp add: state_of_def slot_by_id_def slot_state_of_def bookings_of_def example_slot_def)
  have a2: "state_of ?d 2 = Some Available"
    unfolding example_run_blocked
    by (simp add: state_of_def slot_by_id_def slot_state_of_def bookings_of_def example_slot_def)
  note t = blocked_is_final[of ?h ?ops0]
  from t[of 1 "[Book 7 [1, 2], Cancel 1, BlockSlot (Date 2024 6 1) 1, Generate (Date 2024 6 1)]",
      THEN conjunct1, THEN mp, OF b1]
  have c1: "state_of (run ?h ?d
       [Book 7 [1, 2], Cancel 1, BlockSlot (Date 2024 6 1) 1, Generate (Date 2024 6 1)]) 1
     = Some Blocked" .
  from t[of 2 _ "Book 7 [2]", THEN conjunct2, THEN spec, THEN mp, OF a2]
  have c2: "\<exists>st'. state_of (step ?h ?d (Book 7 [2])) 2 = Some st'
        \<and> transition_allowed Available (Book 7 [2]) st'" .
  have c3: "state_of (step ?h ?d (Book 7 [2])) 2 = Some Booked"
    unfolding example_run_blocked
    by (simp add: state_of_def slot_by_id_def slot_state_of_def bookings_of_def example_slot_def
        book_slot_def add_booking_def set_availability_def next_rowid_def send_notification_def)
  from b1 c1 a2 c2 c3 show ?thesis by (intro conjI)
qed

end
